theory Spec2Isabelle
  imports
    Main
    "HOL-Library.AList"
    "HOL-Library.Char_ord"
    "HOL-Library.List_Lexorder"
    "HOL-Library.Multiset"
begin

section \<open>JavaScript values used by the route matching core\<close>

text \<open>
  Strings are lists of code units; the default \<^verbatim>\<open>Array.prototype.sort\<close> on strings orders
  them lexicographically by code unit, which is the order \<^theory_text>\<open>List_Lexorder\<close> puts on
  \<^typ>\<open>string\<close> (with \<^theory_text>\<open>Char_ord\<close> on the units), so \<^term>\<open>sort\<close> is
  \<^verbatim>\<open>.sort()\<close>.

  A JavaScript \<^verbatim>\<open>Map\<close> keeps its keys in insertion order: it is an association list
  with distinct keys. \<^verbatim>\<open>get\<close> is \<^const>\<open>map_of\<close> (\<^const>\<open>None\<close> is
  \<^verbatim>\<open>undefined\<close>), \<^verbatim>\<open>set\<close> is \<^const>\<open>AList.update\<close> (an existing key keeps
  its position, a new key goes last) and \<^verbatim>\<open>keys()\<close> is \<^term>\<open>map fst\<close>.
\<close>

type_synonym ('k, 'v) js_map = "('k \<times> 'v) list"

text \<open>\<^verbatim>\<open>xs[xs.length - 1]\<close>: reading index \<^verbatim>\<open>-1\<close> of an empty array gives
  \<^verbatim>\<open>undefined\<close>.\<close>

definition last_element :: "'a list \<Rightarrow> 'a option" where
  "last_element xs = (if length xs = 0 then None else Some (xs ! (length xs - 1)))"


section \<open>app-paths-collector.ts and app-paths-routes.ts\<close>

text \<open>The aggregate \<^verbatim>\<open>{ page, pathname, appPaths }\<close>; both classes declare the same
  shape (\<^verbatim>\<open>AppPaths\<close> and \<^verbatim>\<open>AppPathRoute\<close>).\<close>

record app_paths =
  page :: "string option"
  pathname :: string
  appPaths :: "string list"

subsection \<open>AppPathsCollector\<close>

text \<open>The private field \<^verbatim>\<open>appPaths = new Map<string, string[]>()\<close>.\<close>

type_synonym app_paths_collector = "(string, string list) js_map"

definition AppPathsCollector_new :: app_paths_collector where
  "AppPathsCollector_new = []"

text \<open>
  \<^verbatim>\<open>push\<close>: the array found under the pathname (or a fresh empty one, stored under the
  pathname when its length is 0) is extended in place. The stored array is the one that was
  extended, so the entry under \<^verbatim>\<open>pathname\<close> holds the extended array afterwards.
\<close>

definition AppPathsCollector_push ::
  "string \<Rightarrow> string \<Rightarrow> app_paths_collector \<Rightarrow> nat \<times> app_paths_collector" where
  "AppPathsCollector_push pathname' page' c =
     (let appPaths' = (case map_of c pathname' of Some a \<Rightarrow> a | None \<Rightarrow> []);
          c' = (if length appPaths' = 0 then AList.update pathname' appPaths' c else c);
          pushed = appPaths' @ [page']
      in (length pushed, AList.update pathname' pushed c'))"

definition AppPathsCollector_clear :: "app_paths_collector \<Rightarrow> app_paths_collector" where
  "AppPathsCollector_clear c = []"

definition AppPathsCollector_pathnames :: "app_paths_collector \<Rightarrow> string list" where
  "AppPathsCollector_pathnames c = sort (map fst c)"

definition AppPathsCollector_get :: "string \<Rightarrow> app_paths_collector \<Rightarrow> app_paths option" where
  "AppPathsCollector_get pathname' c =
     (case map_of c pathname' of
        None \<Rightarrow> None
      | Some stored \<Rightarrow>
          (let appPaths' = sort stored
           in Some \<lparr>page = last_element appPaths', pathname = pathname', appPaths = appPaths'\<rparr>))"

text \<open>The loop of \<^verbatim>\<open>toSortedArray\<close> skips a pathname whose \<^verbatim>\<open>get\<close> is null.\<close>

fun collect_app_paths :: "app_paths_collector \<Rightarrow> string list \<Rightarrow> app_paths list" where
  "collect_app_paths c [] = []"
| "collect_app_paths c (p # ps) =
     (case AppPathsCollector_get p c of
        None \<Rightarrow> collect_app_paths c ps
      | Some a \<Rightarrow> a # collect_app_paths c ps)"

definition AppPathsCollector_toSortedArray :: "app_paths_collector \<Rightarrow> app_paths list" where
  "AppPathsCollector_toSortedArray c = collect_app_paths c (AppPathsCollector_pathnames c)"

text \<open>A run of \<^verbatim>\<open>push\<close> calls, as the providers' \<^verbatim>\<open>prepare\<close> loops make them: the
  counts returned, in call order, and the collector afterwards.\<close>

fun AppPathsCollector_pushes ::
  "(string \<times> string) list \<Rightarrow> app_paths_collector \<Rightarrow> nat list \<times> app_paths_collector" where
  "AppPathsCollector_pushes [] c = ([], c)"
| "AppPathsCollector_pushes ((pathname', page') # rest) c =
     (let (n, c') = AppPathsCollector_push pathname' page' c;
          (ns, c'') = AppPathsCollector_pushes rest c'
      in (n # ns, c''))"

subsection \<open>AppPathsRoutes\<close>

type_synonym app_paths_routes = "(string, string list) js_map"

definition AppPathsRoutes_new :: app_paths_routes where
  "AppPathsRoutes_new = []"

text \<open>\<^verbatim>\<open>add\<close>: a first page is stored as a one-element array; a later page is pushed onto
  the stored array, which is then sorted in place.\<close>

definition AppPathsRoutes_add ::
  "string \<Rightarrow> string \<Rightarrow> app_paths_routes \<Rightarrow> nat \<times> app_paths_routes" where
  "AppPathsRoutes_add pathname' page' r =
     (case map_of r pathname' of
        None \<Rightarrow>
          (let appPaths' = [page']
           in (length appPaths', AList.update pathname' appPaths' r))
      | Some stored \<Rightarrow>
          (let appPaths' = sort (stored @ [page'])
           in (length appPaths', AList.update pathname' appPaths' r)))"

definition AppPathsRoutes_pathnames :: "app_paths_routes \<Rightarrow> string list" where
  "AppPathsRoutes_pathnames r = sort (map fst r)"

definition AppPathsRoutes_get :: "string \<Rightarrow> app_paths_routes \<Rightarrow> app_paths option" where
  "AppPathsRoutes_get pathname' r =
     (case map_of r pathname' of
        None \<Rightarrow> None
      | Some appPaths' \<Rightarrow>
          Some \<lparr>page = last_element appPaths', pathname = pathname', appPaths = appPaths'\<rparr>)"

text \<open>\<^verbatim>\<open>toSortedArray\<close> pushes \<^verbatim>\<open>this.get(pathname)!\<close> without a test: a null result
  would be stored as it is, so the elements are optional here.\<close>

definition AppPathsRoutes_toSortedArray :: "app_paths_routes \<Rightarrow> app_paths option list" where
  "AppPathsRoutes_toSortedArray r = map (\<lambda>p. AppPathsRoutes_get p r) (AppPathsRoutes_pathnames r)"

fun AppPathsRoutes_adds ::
  "(string \<times> string) list \<Rightarrow> app_paths_routes \<Rightarrow> nat list \<times> app_paths_routes" where
  "AppPathsRoutes_adds [] r = ([], r)"
| "AppPathsRoutes_adds ((pathname', page') # rest) r =
     (let (n, r') = AppPathsRoutes_add pathname' page' r;
          (ns, r'') = AppPathsRoutes_adds rest r'
      in (n # ns, r''))"


section \<open>Route matchers\<close>

datatype error = Error string

type_synonym params = "(string \<times> string list) list"

record route_definition =
  definition_pathname :: string

text \<open>
  Modelled from the spec: the compiled pathname matchers (\<^verbatim>\<open>helpers/pathname-matcher\<close>,
  \<^verbatim>\<open>helpers/dynamic-pathname-matcher\<close> and \<^verbatim>\<open>createPathnameMatcher\<close> are not
  among the sources). There are two variants, each built from the route pathname; the
  static one matches by exact string equality and binds no parameter. What the dynamic one
  binds is left to a parameter.
\<close>

datatype pathname_matcher = StaticPathnameMatcher string | DynamicPathnameMatcher string

definition PathnameMatcher_match ::
  "(string \<Rightarrow> string \<Rightarrow> params option) \<Rightarrow> pathname_matcher \<Rightarrow> string \<Rightarrow> params option" where
  "PathnameMatcher_match dynamic_match m pathname' =
     (case m of
        StaticPathnameMatcher p \<Rightarrow> (if pathname' = p then Some [] else None)
      | DynamicPathnameMatcher pattern \<Rightarrow> dynamic_match pattern pathname')"

text \<open>
  A route matcher object. \<open>ref\<close> is the identity of the object, which is what
  \<^verbatim>\<open>===\<close> compares; \<open>isLocale\<close> is the answer of \<^verbatim>\<open>LocaleRouteMatcher.is\<close>.
\<close>

record route_matcher =
  ref :: nat
  matcher_definition :: route_definition
  matcher :: pathname_matcher
  isLocale :: bool

record route_match =
  match_definition :: route_definition
  match_params :: params

text \<open>The locale context \<^verbatim>\<open>options.i18n\<close>, the match options and their normalized
  form \<^verbatim>\<open>{ pathname, options }\<close>.\<close>

record locale_info =
  i18n_pathname :: string
  detectedLocale :: "string option"
  inferredFromDefault :: bool

record match_options =
  i18n :: "locale_info option"
  matchedOutputPathname :: "string option"

record normalized_match_options =
  normalized_pathname :: string
  options :: match_options

text \<open>The three objects that \<^verbatim>\<open>validate\<close> hands to \<^verbatim>\<open>matcher.match\<close>: the locale
  context, the literal \<^verbatim>\<open>{ pathname }\<close>, and the normalized options.\<close>

datatype match_input =
    MatchLocale locale_info
  | MatchPathname string
  | MatchNormalized normalized_match_options

subsection \<open>default-route-matcher.ts\<close>

definition DefaultRouteMatcher ::
  "(string \<Rightarrow> pathname_matcher) \<Rightarrow> nat \<Rightarrow> route_definition \<Rightarrow> route_matcher" where
  "DefaultRouteMatcher createPathnameMatcher r d =
     \<lparr>ref = r, matcher_definition = d,
      matcher = createPathnameMatcher (definition_pathname d), isLocale = False\<rparr>"

definition identity :: "route_matcher \<Rightarrow> string" where
  "identity m = definition_pathname (matcher_definition m)"

definition isDynamic :: "route_matcher \<Rightarrow> bool" where
  "isDynamic m =
     (case matcher m of DynamicPathnameMatcher _ \<Rightarrow> True | StaticPathnameMatcher _ \<Rightarrow> False)"

text \<open>\<^verbatim>\<open>match({ pathname })\<close> reads the \<^verbatim>\<open>pathname\<close> property of its argument only.\<close>

fun input_pathname :: "match_input \<Rightarrow> string" where
  "input_pathname (MatchLocale l) = i18n_pathname l"
| "input_pathname (MatchPathname p) = p"
| "input_pathname (MatchNormalized n) = normalized_pathname n"

definition DefaultRouteMatcher_match ::
  "(string \<Rightarrow> string \<Rightarrow> params option) \<Rightarrow> route_matcher \<Rightarrow> match_input \<Rightarrow> route_match option" where
  "DefaultRouteMatcher_match dynamic_match m input =
     (case PathnameMatcher_match dynamic_match (matcher m) (input_pathname input) of
        None \<Rightarrow> None
      | Some result \<Rightarrow> Some \<lparr>match_definition = matcher_definition m, match_params = result\<rparr>)"


section \<open>DefaultRouteMatcherManager\<close>

text \<open>
  A provider is named by a number; what its \<^verbatim>\<open>matchers()\<close> promise settles to during
  one reload is given by a function \<open>fetch\<close> of that reload.
\<close>

type_synonym provider = nat

record route_matchers =
  static :: "route_matcher list"
  dynamic :: "route_matcher list"
  duplicates :: "(string, route_matcher list) js_map"
  all :: "(string, route_matcher list) js_map"

datatype promise = Pending | Fulfilled | Rejected error

record manager =
  providers :: "provider list"
  matchers :: route_matchers
  lastCompilationID :: nat
  waitTillReadyPromise :: "promise option"
  reloadHasBeenCalled :: bool
  previousMatchers :: "route_matcher list"

definition compilationID :: "manager \<Rightarrow> nat" where
  "compilationID s = length (providers s)"

text \<open>The field initialisers, in declaration order: \<open>lastCompilationID\<close> reads the
  length of the empty provider list.\<close>

definition DefaultRouteMatcherManager_new :: manager where
  "DefaultRouteMatcherManager_new =
     \<lparr>providers = [],
      matchers = \<lparr>static = [], dynamic = [], duplicates = [], all = []\<rparr>,
      lastCompilationID = 0,
      waitTillReadyPromise = None,
      reloadHasBeenCalled = False,
      previousMatchers = []\<rparr>"

definition push :: "provider list \<Rightarrow> manager \<Rightarrow> manager" where
  "push new_providers s = s\<lparr>providers := providers s @ new_providers\<rparr>"

text \<open>
  \<^verbatim>\<open>waitTillReady\<close>: \<^const>\<open>None\<close> means that the caller is still suspended on a pending
  promise; a rejected promise throws in the caller, before the \<^verbatim>\<open>delete\<close>.
\<close>

definition waitTillReady :: "manager \<Rightarrow> ((error + unit) \<times> manager) option" where
  "waitTillReady s =
     (case waitTillReadyPromise s of
        None \<Rightarrow> Some (Inr (), s)
      | Some Pending \<Rightarrow> None
      | Some (Rejected err) \<Rightarrow> Some (Inl err, s)
      | Some Fulfilled \<Rightarrow> Some (Inr (), s\<lparr>waitTillReadyPromise := None\<rparr>))"

text \<open>\<^verbatim>\<open>callbacks.reject\<close> and \<^verbatim>\<open>callbacks.resolve\<close> settle the promise made at the
  entry of \<^verbatim>\<open>forceReload\<close>; a promise that is settled already stays as it is.\<close>

definition settle :: "promise \<Rightarrow> manager \<Rightarrow> manager" where
  "settle outcome s =
     (case waitTillReadyPromise s of
        Some Pending \<Rightarrow> s\<lparr>waitTillReadyPromise := Some outcome\<rparr>
      | _ \<Rightarrow> s)"

text \<open>
  \<^verbatim>\<open>Promise.all\<close>: the values in order when every promise is fulfilled, and a rejection
  otherwise (the first one in list order is taken here; JavaScript takes the first in
  time).
\<close>

fun Promise_all :: "(error + 'a) list \<Rightarrow> error + 'a list" where
  "Promise_all [] = Inr []"
| "Promise_all (Inl err # rest) = Inl err"
| "Promise_all (Inr v # rest) =
     (case Promise_all rest of Inl err \<Rightarrow> Inl err | Inr vs \<Rightarrow> Inr (v # vs))"

text \<open>\<^verbatim>\<open>previousMatchers.length === matchers.length && previousMatchers.every(...)\<close>, with
  \<^verbatim>\<open>===\<close> on the objects.\<close>

definition same_matchers :: "route_matcher list \<Rightarrow> route_matcher list \<Rightarrow> bool" where
  "same_matchers previous matchers' =
     (if length previous = length matchers'
      then list_all (\<lambda>(cachedMatcher, index). ref cachedMatcher = ref (matchers' ! index))
             (zip previous [0..<length previous])
      else False)"

text \<open>
  The \<^verbatim>\<open>try\<close> block of \<^verbatim>\<open>forceReload\<close>. The provider calls are made on the providers
  registered at entry; the block is suspended once, at the \<^verbatim>\<open>await\<close>, and \<open>pushed\<close>
  are the providers that other code registers meanwhile (registrations are the only
  changes interleaved here: no second reload runs during the suspension). \<^verbatim>\<open>groupMatcherResults\<close> (giving
  the pair of \<^verbatim>\<open>all\<close> and \<^verbatim>\<open>duplicates\<close>) and \<^verbatim>\<open>sortDynamicMatchers\<close> are helpers that
  are not among the sources: they are parameters.
\<close>

definition forceReload_try ::
  "(route_matcher list \<Rightarrow>
      (string, route_matcher list) js_map \<times> (string, route_matcher list) js_map) \<Rightarrow>
   (route_matcher list \<Rightarrow> route_matcher list) \<Rightarrow>
   (provider \<Rightarrow> error + route_matcher list) \<Rightarrow> provider list \<Rightarrow> nat \<Rightarrow>
   manager \<Rightarrow> (error + unit) \<times> manager" where
  "forceReload_try groupMatcherResults sortDynamicMatchers fetch pushed compilationID' s =
     (let awaited = Promise_all (map fetch (providers s));
          s1 = push pushed s
      in case awaited of
           Inl err \<Rightarrow> (Inl err, s1)
         | Inr providersMatchers \<Rightarrow>
             (let matchers' = foldl (\<lambda>a m. a @ m) [] providersMatchers;
                  (all', duplicates') = groupMatcherResults matchers';
                  s2 = s1\<lparr>matchers := (matchers s1)\<lparr>duplicates := duplicates'\<rparr>\<rparr>
              in if same_matchers (previousMatchers s2) matchers' then (Inr (), s2)
                 else
                   (let s3 = s2\<lparr>previousMatchers := matchers'\<rparr>;
                        s4 = s3\<lparr>matchers := (matchers s3)\<lparr>all := all'\<rparr>\<rparr>;
                        s5 = s4\<lparr>matchers := (matchers s4)
                               \<lparr>static := filter (\<lambda>m. \<not> isDynamic m) matchers'\<rparr>\<rparr>;
                        s6 = s5\<lparr>matchers := (matchers s5)
                               \<lparr>dynamic := sortDynamicMatchers (filter isDynamic matchers')\<rparr>\<rparr>
                    in if compilationID s6 \<noteq> compilationID'
                       then (Inl (Error ''Invariant: expected compilation to finish before new matchers were added, possible missing await''), s6)
                       else (Inr (), s6))))"

text \<open>\<^verbatim>\<open>try { ... } catch (err) { ... } finally { ... }\<close>: the handler runs on a throw of the
  body and its outcome replaces the body's; the finaliser runs in every case.\<close>

definition try_catch_finally ::
  "('s \<Rightarrow> (error + 'a) \<times> 's) \<Rightarrow> (error \<Rightarrow> 's \<Rightarrow> (error + 'a) \<times> 's) \<Rightarrow> ('s \<Rightarrow> 's) \<Rightarrow>
   's \<Rightarrow> (error + 'a) \<times> 's" where
  "try_catch_finally body handler finaliser s =
     (let (r, s1) = body s;
          (r', s2) = (case r of Inl err \<Rightarrow> handler err s1 | Inr v \<Rightarrow> (Inr v, s1))
      in (r', finaliser s2))"

text \<open>\<^verbatim>\<open>forceReload\<close>: the first component is how the call itself completes for the
  caller that awaits it.\<close>

definition forceReload ::
  "(route_matcher list \<Rightarrow>
      (string, route_matcher list) js_map \<times> (string, route_matcher list) js_map) \<Rightarrow>
   (route_matcher list \<Rightarrow> route_matcher list) \<Rightarrow>
   (provider \<Rightarrow> error + route_matcher list) \<Rightarrow> provider list \<Rightarrow>
   manager \<Rightarrow> (error + unit) \<times> manager" where
  "forceReload groupMatcherResults sortDynamicMatchers fetch pushed s =
     (let s0 = s\<lparr>waitTillReadyPromise := Some Pending\<rparr>;
          s1 = s0\<lparr>reloadHasBeenCalled := True\<rparr>;
          compilationID' = compilationID s1
      in try_catch_finally
           (forceReload_try groupMatcherResults sortDynamicMatchers fetch pushed compilationID')
           (\<lambda>err s2. (Inr (), settle (Rejected err) s2))
           (\<lambda>s3. settle Fulfilled (s3\<lparr>lastCompilationID := compilationID'\<rparr>))
           s1)"

definition load ::
  "(route_matcher list \<Rightarrow>
      (string, route_matcher list) js_map \<times> (string, route_matcher list) js_map) \<Rightarrow>
   (route_matcher list \<Rightarrow> route_matcher list) \<Rightarrow>
   (provider \<Rightarrow> error + route_matcher list) \<Rightarrow> provider list \<Rightarrow>
   manager \<Rightarrow> (error + unit) \<times> manager" where
  "load groupMatcherResults sortDynamicMatchers fetch pushed s =
     (if reloadHasBeenCalled s then (Inr (), s)
      else forceReload groupMatcherResults sortDynamicMatchers fetch pushed
             (s\<lparr>reloadHasBeenCalled := True\<rparr>))"

subsection \<open>Matching\<close>

text \<open>\<^verbatim>\<open>validate\<close>; \<open>match_of\<close> is the \<^verbatim>\<open>match\<close> method of the matcher's class.\<close>

definition validate ::
  "(route_matcher \<Rightarrow> match_input \<Rightarrow> route_match option) \<Rightarrow> route_matcher \<Rightarrow>
   normalized_match_options \<Rightarrow> error + route_match option" where
  "validate match_of m normalized =
     (if isLocale m then
        (case i18n (options normalized) of
           None \<Rightarrow> Inl (Error ''Invariant: expected locale matcher to have locale information for matching'')
         | Some l \<Rightarrow> Inr (match_of m (MatchLocale l)))
      else
        (case i18n (options normalized) of
           Some l \<Rightarrow>
             (if inferredFromDefault l then Inr (match_of m (MatchPathname (i18n_pathname l)))
              else Inr (match_of m (MatchNormalized normalized)))
         | None \<Rightarrow> Inr (match_of m (MatchNormalized normalized))))"

text \<open>
  One run of the generator \<^verbatim>\<open>matchAll\<close>, driven to its end: the matches yielded in order,
  the matchers handed to \<^verbatim>\<open>validate\<close> in order, and the error that ended the run, if any.
\<close>

record generator_run =
  yielded :: "route_match list"
  consulted :: "route_matcher list"
  thrown :: "error option"

definition finished :: generator_run where
  "finished = \<lparr>yielded = [], consulted = [], thrown = None\<rparr>"

definition consult :: "route_matcher \<Rightarrow> route_match list \<Rightarrow> generator_run \<Rightarrow> generator_run" where
  "consult m ys run =
     run\<lparr>yielded := ys @ yielded run, consulted := m # consulted run\<rparr>"

text \<open>The loop over the entry of \<^verbatim>\<open>all\<close>: \<^verbatim>\<open>yield match; return null\<close> at the first
  success.\<close>

fun yield_first ::
  "(route_matcher \<Rightarrow> error + route_match option) \<Rightarrow> route_matcher list \<Rightarrow> generator_run" where
  "yield_first v [] = finished"
| "yield_first v (m # ms) =
     (case v m of
        Inl err \<Rightarrow> \<lparr>yielded = [], consulted = [m], thrown = Some err\<rparr>
      | Inr None \<Rightarrow> consult m [] (yield_first v ms)
      | Inr (Some found) \<Rightarrow> \<lparr>yielded = [found], consulted = [m], thrown = None\<rparr>)"

text \<open>The loops over \<^verbatim>\<open>static\<close> and \<^verbatim>\<open>dynamic\<close>: every success is yielded.\<close>

fun yield_every ::
  "(route_matcher \<Rightarrow> error + route_match option) \<Rightarrow> route_matcher list \<Rightarrow> generator_run" where
  "yield_every v [] = finished"
| "yield_every v (m # ms) =
     (case v m of
        Inl err \<Rightarrow> \<lparr>yielded = [], consulted = [m], thrown = Some err\<rparr>
      | Inr None \<Rightarrow> consult m [] (yield_every v ms)
      | Inr (Some found) \<Rightarrow> consult m [found] (yield_every v ms))"

text \<open>Two statements in sequence: the second runs unless the first threw.\<close>

definition and_then :: "generator_run \<Rightarrow> generator_run \<Rightarrow> generator_run" where
  "and_then first second =
     (case thrown first of
        Some err \<Rightarrow> first
      | None \<Rightarrow>
          \<lparr>yielded = yielded first @ yielded second,
           consulted = consulted first @ consulted second,
           thrown = thrown second\<rparr>)"

text \<open>
  \<^verbatim>\<open>matchAll\<close>. The normalizer and \<^verbatim>\<open>isDynamicRoute\<close> are collaborators that are not
  among the sources: they are parameters. The test on
  \<^verbatim>\<open>normalized.options.matchedOutputPathname\<close> is JavaScript truthiness: a string that is
  present and not empty.
\<close>

definition matchAll ::
  "(string \<Rightarrow> match_options \<Rightarrow> normalized_match_options) \<Rightarrow> (string \<Rightarrow> bool) \<Rightarrow>
   (route_matcher \<Rightarrow> match_input \<Rightarrow> route_match option) \<Rightarrow>
   string \<Rightarrow> match_options \<Rightarrow> manager \<Rightarrow> generator_run" where
  "matchAll normalizer isDynamicRoute match_of pathname' options' s =
     (if lastCompilationID s \<noteq> compilationID s
      then \<lparr>yielded = [], consulted = [],
            thrown = Some (Error ''Invariant: expected routes to have been loaded before match'')\<rparr>
      else
        (let normalized = normalizer pathname' options';
             scan =
               and_then
                 (if \<not> isDynamicRoute pathname'
                  then yield_every (\<lambda>m. validate match_of m normalized) (static (matchers s))
                  else finished)
                 (yield_every (\<lambda>m. validate match_of m normalized) (dynamic (matchers s)))
         in case matchedOutputPathname (options normalized) of
              None \<Rightarrow> scan
            | Some output \<Rightarrow>
                if output = [] then scan
                else
                  (case map_of (all (matchers s)) output of
                     None \<Rightarrow> finished
                   | Some matchers' \<Rightarrow>
                       yield_first (\<lambda>m. validate match_of m normalized) matchers')))"

text \<open>\<^verbatim>\<open>match\<close>: the first match that \<^verbatim>\<open>matchAll\<close> yields; the generator is not resumed
  after it, so only an error before the first yield reaches the caller.\<close>

definition match_first ::
  "(string \<Rightarrow> match_options \<Rightarrow> normalized_match_options) \<Rightarrow> (string \<Rightarrow> bool) \<Rightarrow>
   (route_matcher \<Rightarrow> match_input \<Rightarrow> route_match option) \<Rightarrow>
   string \<Rightarrow> match_options \<Rightarrow> manager \<Rightarrow> error + route_match option" where
  "match_first normalizer isDynamicRoute match_of pathname' info s =
     (let run = matchAll normalizer isDynamicRoute match_of pathname' info s
      in case yielded run of
           found # _ \<Rightarrow> Inr (Some found)
         | [] \<Rightarrow> (case thrown run of Some err \<Rightarrow> Inl err | None \<Rightarrow> Inr None))"



section \<open>Collaborators and inputs of the worked examples\<close>

text \<open>
  Modelled from the spec: \<^verbatim>\<open>groupMatcherResults\<close> (\<^verbatim>\<open>helpers/group-matcher-results\<close> is
  not among the sources). \<^verbatim>\<open>all\<close> maps every identity to the complete list of the matchers
  with that identity, in input order; \<^verbatim>\<open>duplicates\<close> keeps the entries of the identities
  that more than one matcher has.
\<close>

definition group_add ::
  "(string, route_matcher list) js_map \<Rightarrow> route_matcher \<Rightarrow> (string, route_matcher list) js_map" where
  "group_add acc m =
     AList.update (identity m)
       ((case map_of acc (identity m) of Some ms \<Rightarrow> ms | None \<Rightarrow> []) @ [m]) acc"

definition groupMatcherResults ::
  "route_matcher list \<Rightarrow>
   (string, route_matcher list) js_map \<times> (string, route_matcher list) js_map" where
  "groupMatcherResults ms =
     (let all' = foldl group_add [] ms
      in (all', filter (\<lambda>entry. 1 < length (snd entry)) all'))"

text \<open>A normalizer that leaves the pathname and the options as they are, a test for a
  bracket in the pathname, and a matcher of the one dynamic pattern of the examples.\<close>

definition plain_normalizer :: "string \<Rightarrow> match_options \<Rightarrow> normalized_match_options" where
  "plain_normalizer pathname' options' = \<lparr>normalized_pathname = pathname', options = options'\<rparr>"

definition has_bracket :: "string \<Rightarrow> bool" where
  "has_bracket pathname' \<longleftrightarrow> CHR ''['' \<in> set pathname'"

definition slug_match :: "string \<Rightarrow> string \<Rightarrow> params option" where
  "slug_match pattern pathname' =
     (if pattern = ''/posts/[slug]'' \<and> take 7 pathname' = ''/posts/'' \<and> 7 < length pathname'
      then Some [(''slug'', [drop 7 pathname'])] else None)"

definition about_matcher :: route_matcher where
  "about_matcher = DefaultRouteMatcher StaticPathnameMatcher 1 \<lparr>definition_pathname = ''/about''\<rparr>"

definition post_matcher :: route_matcher where
  "post_matcher =
     DefaultRouteMatcher DynamicPathnameMatcher 2 \<lparr>definition_pathname = ''/posts/[slug]''\<rparr>"

definition contact_matcher :: route_matcher where
  "contact_matcher =
     (DefaultRouteMatcher StaticPathnameMatcher 3 \<lparr>definition_pathname = ''/contact''\<rparr>)
       \<lparr>isLocale := True\<rparr>"

definition fetch_routes :: "provider \<Rightarrow> error + route_matcher list" where
  "fetch_routes p = Inr (if p = 0 then [about_matcher, post_matcher] else [])"

definition fetch_failing :: "provider \<Rightarrow> error + route_matcher list" where
  "fetch_failing p = Inl (Error ''ENOENT'')"

text \<open>A manager with one provider registered and nothing compiled, and the same manager
  after a reload during which nothing was registered.\<close>

definition registered :: manager where
  "registered = push [0] DefaultRouteMatcherManager_new"

definition compiled :: manager where
  "compiled = snd (forceReload groupMatcherResults (sort_key identity) fetch_routes [] registered)"

text \<open>No options, the options of a request for \<^verbatim>\<open>/en/about\<close> whose locale \<^verbatim>\<open>en\<close> was
  inferred from the default, and a directive naming an output pathname.\<close>

definition no_options :: match_options where
  "no_options = \<lparr>i18n = None, matchedOutputPathname = None\<rparr>"

definition inferred_en_about :: match_options where
  "inferred_en_about =
     \<lparr>i18n = Some \<lparr>i18n_pathname = ''/about'', detectedLocale = Some ''en'',
                    inferredFromDefault = True\<rparr>,
      matchedOutputPathname = None\<rparr>"

definition output_about :: match_options where
  "output_about = \<lparr>i18n = None, matchedOutputPathname = Some ''/about''\<rparr>"


text \<open>A static route that the dynamic pattern also matches, and a locale-aware variant of
  the matcher of \<^verbatim>\<open>/about\<close>; the lists that a provider returns with them, and the
  managers compiled from those lists.\<close>

definition featured_matcher :: route_matcher where
  "featured_matcher =
     DefaultRouteMatcher StaticPathnameMatcher 4 \<lparr>definition_pathname = ''/posts/featured''\<rparr>"

definition about_locale_matcher :: route_matcher where
  "about_locale_matcher =
     (DefaultRouteMatcher StaticPathnameMatcher 5 \<lparr>definition_pathname = ''/about''\<rparr>)
       \<lparr>isLocale := True\<rparr>"

definition fetch_posts :: "provider \<Rightarrow> error + route_matcher list" where
  "fetch_posts p = Inr (if p = 0 then [post_matcher, featured_matcher] else [])"

definition fetch_localized :: "provider \<Rightarrow> error + route_matcher list" where
  "fetch_localized p =
     Inr (if p = 0 then [contact_matcher, featured_matcher, post_matcher] else [])"

definition fetch_variants :: "provider \<Rightarrow> error + route_matcher list" where
  "fetch_variants p = Inr (if p = 0 then [about_locale_matcher, about_matcher] else [])"

definition compiled_posts :: manager where
  "compiled_posts =
     snd (forceReload groupMatcherResults (sort_key identity) fetch_posts [] registered)"

definition compiled_localized :: manager where
  "compiled_localized =
     snd (forceReload groupMatcherResults (sort_key identity) fetch_localized [] registered)"

definition compiled_variants :: manager where
  "compiled_variants =
     snd (forceReload groupMatcherResults (sort_key identity) fetch_variants [] registered)"

text \<open>A directive naming \<^verbatim>\<open>/about\<close> with a locale context that was detected, not
  inferred, and whose pathname is another one.\<close>

definition output_about_de :: match_options where
  "output_about_de =
     \<lparr>i18n = Some \<lparr>i18n_pathname = ''/ueber'', detectedLocale = Some ''de'',
                    inferredFromDefault = False\<rparr>,
      matchedOutputPathname = Some ''/about''\<rparr>"


section \<open>Notions used in the statements and proofs\<close>

text \<open>The array stored under a pathname, empty when there is none.\<close>

definition pages_at :: "(string, string list) js_map \<Rightarrow> string \<Rightarrow> string list" where
  "pages_at c k = (case map_of c k of Some a \<Rightarrow> a | None \<Rightarrow> [])"

text \<open>The pages pushed under a pathname, in the order of the calls.\<close>

definition pushed_under :: "string \<Rightarrow> (string \<times> string) list \<Rightarrow> string list" where
  "pushed_under k ps = map snd (filter (\<lambda>x. fst x = k) ps)"

definition aggregate :: "string \<Rightarrow> string list \<Rightarrow> app_paths" where
  "aggregate k stored =
     \<lparr>page = last_element (sort stored), pathname = k, appPaths = sort stored\<rparr>"

text \<open>
  The relation kept between an \<^verbatim>\<open>AppPathsRoutes\<close> and an \<^verbatim>\<open>AppPathsCollector\<close> that
  received the same insertions: the same pathnames in the same order, every array of the
  former is the sorted array of the latter, and no stored array is empty.
\<close>

definition sim :: "app_paths_routes \<Rightarrow> app_paths_collector \<Rightarrow> bool" where
  "sim r c \<longleftrightarrow>
     map fst r = map fst c \<and>
     (\<forall>k. pages_at r k = sort (pages_at c k)) \<and>
     (\<forall>k. k \<in> fst ` set c \<longrightarrow> pages_at c k \<noteq> [])"


text \<open>The matches that a validation function finds in a list of matchers, in list order.\<close>

definition successes ::
  "(route_matcher \<Rightarrow> error + route_match option) \<Rightarrow> route_matcher list \<Rightarrow> route_match list" where
  "successes v ms = concat (map (\<lambda>m. case v m of Inr (Some found) \<Rightarrow> [found] | _ \<Rightarrow> []) ms)"


text \<open>The matcher list stored under a pathname in \<^verbatim>\<open>all\<close>, empty when there is none.\<close>

definition matchers_at ::
  "(string, route_matcher list) js_map \<Rightarrow> string \<Rightarrow> route_matcher list" where
  "matchers_at m k = (case map_of m k of Some ms \<Rightarrow> ms | None \<Rightarrow> [])"


section \<open>The collector\<close>

lemma sort_cong_mset: "mset xs = mset ys \<Longrightarrow> sort xs = sort ys"
  by (metis sorted_list_of_multiset_mset)

lemma last_element_last: "xs \<noteq> [] \<Longrightarrow> last_element xs = Some (last xs)"
  by (simp add: last_element_def last_conv_nth)

lemma pages_at_new: "pages_at AppPathsCollector_new k = []"
  by (simp add: pages_at_def AppPathsCollector_new_def)

lemma map_of_inside: "k \<in> fst ` set c \<Longrightarrow> map_of c k = Some (pages_at c k)"
  by (cases "map_of c k") (simp_all add: pages_at_def map_of_eq_None_iff)

lemma map_of_outside: "k \<notin> fst ` set c \<Longrightarrow> map_of c k = None"
  by (simp add: map_of_eq_None_iff)

lemma pages_at_outside: "k \<notin> fst ` set c \<Longrightarrow> pages_at c k = []"
  by (simp add: pages_at_def map_of_outside)

lemma pages_at_update:
  "pages_at (AList.update p v r) k = (if k = p then v else pages_at r k)"
  by (simp add: pages_at_def update_conv')

lemma push_keys:
  "map fst (snd (AppPathsCollector_push p g c)) =
     (if p \<in> set (map fst c) then map fst c else map fst c @ [p])"
  by (auto simp: AppPathsCollector_push_def Let_def update_keys dom_update)

lemma push_pages_at:
  "pages_at (snd (AppPathsCollector_push p g c)) k =
     (if k = p then pages_at c p @ [g] else pages_at c k)"
  by (auto simp: AppPathsCollector_push_def pages_at_def Let_def update_conv' split: option.splits)

lemma push_count: "fst (AppPathsCollector_push p g c) = Suc (length (pages_at c p))"
  by (simp add: AppPathsCollector_push_def pages_at_def Let_def)

lemma pushes_Cons:
  "AppPathsCollector_pushes ((p, g) # ps) c =
     (fst (AppPathsCollector_push p g c) #
        fst (AppPathsCollector_pushes ps (snd (AppPathsCollector_push p g c))),
      snd (AppPathsCollector_pushes ps (snd (AppPathsCollector_push p g c))))"
  by (simp split: prod.splits)

lemma pushes_Cons_snd:
  "snd (AppPathsCollector_pushes ((p, g) # ps) c) =
   snd (AppPathsCollector_pushes ps (snd (AppPathsCollector_push p g c)))"
  by (simp only: pushes_Cons snd_conv)

lemma pushes_keys_set:
  "set (map fst (snd (AppPathsCollector_pushes ps c))) = set (map fst c) \<union> fst ` set ps"
proof (induction ps arbitrary: c)
  case Nil
  then show ?case by simp
next
  case (Cons x ps)
  obtain p g where x: "x = (p, g)" by (cases x)
  have "set (map fst (snd (AppPathsCollector_push p g c))) = insert p (set (map fst c))"
    by (auto simp: push_keys)
  with Cons.IH [of "snd (AppPathsCollector_push p g c)"] show ?case
    unfolding x pushes_Cons_snd by auto
qed

lemma pushes_keys_distinct:
  "distinct (map fst c) \<Longrightarrow> distinct (map fst (snd (AppPathsCollector_pushes ps c)))"
proof (induction ps arbitrary: c)
  case Nil
  then show ?case by simp
next
  case (Cons x ps)
  obtain p g where x: "x = (p, g)" by (cases x)
  have "distinct (map fst (snd (AppPathsCollector_push p g c)))"
    using Cons.prems by (simp add: push_keys)
  from Cons.IH [OF this] show ?case
    unfolding x pushes_Cons_snd .
qed

lemma pushes_pages_at:
  "pages_at (snd (AppPathsCollector_pushes ps c)) k = pages_at c k @ pushed_under k ps"
proof (induction ps arbitrary: c)
  case Nil
  then show ?case by (simp add: pushed_under_def)
next
  case (Cons x ps)
  obtain p g where x: "x = (p, g)" by (cases x)
  show ?case
    unfolding x pushes_Cons_snd Cons.IH
    by (simp add: push_pages_at pushed_under_def)
qed

lemma get_aggregate:
  "k \<in> set (map fst c) \<Longrightarrow> AppPathsCollector_get k c = Some (aggregate k (pages_at c k))"
  by (auto simp: AppPathsCollector_get_def aggregate_def pages_at_def Let_def map_of_eq_None_iff
      split: option.splits)

lemma collect_aggregate:
  "set ks \<subseteq> set (map fst c) \<Longrightarrow>
   collect_app_paths c ks = map (\<lambda>k. aggregate k (pages_at c k)) ks"
  by (induction ks) (simp_all add: get_aggregate)

lemma toSortedArray_aggregate:
  "AppPathsCollector_toSortedArray c =
     map (\<lambda>k. aggregate k (pages_at c k)) (sort (map fst c))"
  unfolding AppPathsCollector_toSortedArray_def AppPathsCollector_pathnames_def
  by (rule collect_aggregate) simp

lemma pushed_under_mset:
  "mset ps = mset qs \<Longrightarrow> mset (pushed_under k ps) = mset (pushed_under k qs)"
  unfolding pushed_under_def by (metis mset_filter mset_map)

lemma pushes_new_keys_mset:
  assumes "mset ps = mset qs"
  shows "mset (map fst (snd (AppPathsCollector_pushes ps AppPathsCollector_new))) =
         mset (map fst (snd (AppPathsCollector_pushes qs AppPathsCollector_new)))"
proof -
  let ?c = "snd (AppPathsCollector_pushes ps AppPathsCollector_new)"
  let ?d = "snd (AppPathsCollector_pushes qs AppPathsCollector_new)"
  have "set ps = set qs" using assms by (rule mset_eq_setD)
  then have s: "set (map fst ?c) = set (map fst ?d)"
    by (simp only: pushes_keys_set)
  have d1: "distinct (map fst ?c)" and d2: "distinct (map fst ?d)"
    by (rule pushes_keys_distinct, simp add: AppPathsCollector_new_def)+
  from d1 d2 s show ?thesis
    by (metis set_eq_iff_mset_eq_distinct)
qed

lemma toSortedArray_pushes:
  "AppPathsCollector_toSortedArray (snd (AppPathsCollector_pushes ps AppPathsCollector_new)) =
     map (\<lambda>k. aggregate k (pushed_under k ps))
       (sort (map fst (snd (AppPathsCollector_pushes ps AppPathsCollector_new))))"
  by (simp add: toSortedArray_aggregate pushes_pages_at pages_at_new)

lemma toSortedArray_order_independent:
  assumes "mset ps = mset qs"
  shows "AppPathsCollector_toSortedArray (snd (AppPathsCollector_pushes ps AppPathsCollector_new)) =
         AppPathsCollector_toSortedArray (snd (AppPathsCollector_pushes qs AppPathsCollector_new))"
proof -
  let ?c = "snd (AppPathsCollector_pushes ps AppPathsCollector_new)"
  let ?d = "snd (AppPathsCollector_pushes qs AppPathsCollector_new)"
  have keys: "sort (map fst ?c) = sort (map fst ?d)"
    by (rule sort_cong_mset) (rule pushes_new_keys_mset [OF assms])
  have "aggregate k (pushed_under k ps) = aggregate k (pushed_under k qs)" for k
    using sort_cong_mset [OF pushed_under_mset [OF assms, of k]]
    by (simp add: aggregate_def)
  then show ?thesis
    unfolding toSortedArray_pushes keys by simp
qed

lemma toSortedArray_pathnames:
  "map pathname
     (AppPathsCollector_toSortedArray (snd (AppPathsCollector_pushes ps AppPathsCollector_new))) =
   sort (map fst (snd (AppPathsCollector_pushes ps AppPathsCollector_new)))"
  unfolding toSortedArray_pushes by (simp add: o_def aggregate_def)

lemma toSortedArray_pathnames_ordered:
  "sorted (map pathname
     (AppPathsCollector_toSortedArray (snd (AppPathsCollector_pushes ps AppPathsCollector_new)))) \<and>
   distinct (map pathname
     (AppPathsCollector_toSortedArray (snd (AppPathsCollector_pushes ps AppPathsCollector_new))))"
  unfolding toSortedArray_pathnames
  using pushes_keys_distinct [of AppPathsCollector_new ps]
  by (simp add: AppPathsCollector_new_def)

lemma toSortedArray_element:
  assumes "a \<in> set (AppPathsCollector_toSortedArray
                      (snd (AppPathsCollector_pushes ps AppPathsCollector_new)))"
  shows "appPaths a = sort (pushed_under (pathname a) ps) \<and> appPaths a \<noteq> [] \<and>
         page a = Some (last (appPaths a))"
proof -
  let ?c = "snd (AppPathsCollector_pushes ps AppPathsCollector_new)"
  from assms obtain k where k: "k \<in> set (map fst ?c)" and a: "a = aggregate k (pushed_under k ps)"
    unfolding toSortedArray_pushes by auto
  from k have "k \<in> fst ` set ps"
    unfolding pushes_keys_set by (simp add: AppPathsCollector_new_def)
  then have ne: "pushed_under k ps \<noteq> []"
    by (auto simp: pushed_under_def filter_empty_conv)
  then have "sort (pushed_under k ps) \<noteq> []"
    by (metis length_sort length_0_conv)
  then show ?thesis
    by (simp add: a aggregate_def last_element_last)
qed

text \<open>
  C4. Starting from a new collector, two runs of \<^verbatim>\<open>push\<close> calls that insert the same
  multiset of (pathname, page) pairs give the same \<^verbatim>\<open>toSortedArray()\<close>. Its aggregates
  are in ascending order of pathname, one per pathname; the \<^verbatim>\<open>appPaths\<close> of each is the
  sorted list of the pages pushed under its pathname, and its \<^verbatim>\<open>page\<close> is the last element
  of that sorted list.
\<close>

theorem toSortedArray_independent_of_push_order:
  assumes "mset ps = mset qs"
  shows "AppPathsCollector_toSortedArray (snd (AppPathsCollector_pushes ps AppPathsCollector_new)) =
         AppPathsCollector_toSortedArray (snd (AppPathsCollector_pushes qs AppPathsCollector_new)) \<and>
         sorted (map pathname (AppPathsCollector_toSortedArray
           (snd (AppPathsCollector_pushes ps AppPathsCollector_new)))) \<and>
         distinct (map pathname (AppPathsCollector_toSortedArray
           (snd (AppPathsCollector_pushes ps AppPathsCollector_new)))) \<and>
         (\<forall>a \<in> set (AppPathsCollector_toSortedArray
                     (snd (AppPathsCollector_pushes ps AppPathsCollector_new))).
            appPaths a = sort (pushed_under (pathname a) ps) \<and> sorted (appPaths a) \<and>
            appPaths a \<noteq> [] \<and> page a = Some (last (appPaths a)))"
proof -
  have "sorted (appPaths a)"
    if "a \<in> set (AppPathsCollector_toSortedArray
                  (snd (AppPathsCollector_pushes ps AppPathsCollector_new)))" for a
    using toSortedArray_element [OF that] by (metis sorted_sort)
  then show ?thesis
    using toSortedArray_order_independent [OF assms] toSortedArray_pathnames_ordered [of ps]
      toSortedArray_element [of _ ps]
    by blast
qed

theorem toSortedArray_independent_of_push_order_witness:
  "mset [(''/b'', ''/b/page''), (''/a'', ''/(x)/a/page''), (''/a'', ''/(g)/a/page'')] =
   mset [(''/a'', ''/(g)/a/page''), (''/b'', ''/b/page''), (''/a'', ''/(x)/a/page'')] \<and>
   AppPathsCollector_toSortedArray (snd (AppPathsCollector_pushes
     [(''/b'', ''/b/page''), (''/a'', ''/(x)/a/page''), (''/a'', ''/(g)/a/page'')]
     AppPathsCollector_new)) =
   AppPathsCollector_toSortedArray (snd (AppPathsCollector_pushes
     [(''/a'', ''/(g)/a/page''), (''/b'', ''/b/page''), (''/a'', ''/(x)/a/page'')]
     AppPathsCollector_new)) \<and>
   AppPathsCollector_toSortedArray (snd (AppPathsCollector_pushes
     [(''/b'', ''/b/page''), (''/a'', ''/(x)/a/page''), (''/a'', ''/(g)/a/page'')]
     AppPathsCollector_new)) =
   [\<lparr>page = Some ''/(x)/a/page'', pathname = ''/a'',
      appPaths = [''/(g)/a/page'', ''/(x)/a/page'']\<rparr>,
    \<lparr>page = Some ''/b/page'', pathname = ''/b'', appPaths = [''/b/page'']\<rparr>]"
proof -
  have h: "mset [(''/b'', ''/b/page''), (''/a'', ''/(x)/a/page''), (''/a'', ''/(g)/a/page'')] =
      mset [(''/a'', ''/(g)/a/page''), (''/b'', ''/b/page''), (''/a'', ''/(x)/a/page'')]"
    by simp
  have v: "AppPathsCollector_toSortedArray (snd (AppPathsCollector_pushes
       [(''/b'', ''/b/page''), (''/a'', ''/(x)/a/page''), (''/a'', ''/(g)/a/page'')]
       AppPathsCollector_new)) =
     [\<lparr>page = Some ''/(x)/a/page'', pathname = ''/a'',
        appPaths = [''/(g)/a/page'', ''/(x)/a/page'']\<rparr>,
      \<lparr>page = Some ''/b/page'', pathname = ''/b'', appPaths = [''/b/page'']\<rparr>]"
    by code_simp
  from toSortedArray_independent_of_push_order [OF h] h v show ?thesis
    by blast
qed


section \<open>AppPathsRoutes against AppPathsCollector\<close>

lemma add_keys:
  "map fst (snd (AppPathsRoutes_add p g r)) =
     (if p \<in> fst ` set r then map fst r else map fst r @ [p])"
  by (cases "p \<in> fst ` set r")
    (simp_all add: AppPathsRoutes_add_def Let_def update_keys map_of_inside map_of_outside)

lemma add_pages_at:
  "pages_at (snd (AppPathsRoutes_add p g r)) k =
     (if k = p then (if p \<in> fst ` set r then sort (pages_at r p @ [g]) else [g])
      else pages_at r k)"
  by (cases "p \<in> fst ` set r")
    (simp_all add: AppPathsRoutes_add_def Let_def pages_at_update map_of_inside map_of_outside)

lemma add_count:
  "fst (AppPathsRoutes_add p g r) =
     (if p \<in> fst ` set r then Suc (length (pages_at r p)) else 1)"
  by (cases "p \<in> fst ` set r")
    (simp_all add: AppPathsRoutes_add_def Let_def map_of_inside map_of_outside)

lemma sim_new: "sim AppPathsRoutes_new AppPathsCollector_new"
  by (simp add: sim_def AppPathsRoutes_new_def AppPathsCollector_new_def pages_at_def)

lemma sort_sort_snoc: "sort (sort xs @ [x]) = sort (xs @ [x])"
  by (rule sort_cong_mset) simp

lemma sim_step:
  assumes "sim r c"
  shows "fst (AppPathsRoutes_add p g r) = fst (AppPathsCollector_push p g c)"
    and "sim (snd (AppPathsRoutes_add p g r)) (snd (AppPathsCollector_push p g c))"
proof -
  from assms have keys: "map fst r = map fst c"
    and pages: "\<And>k. pages_at r k = sort (pages_at c k)"
    and ne: "\<And>k. k \<in> fst ` set c \<Longrightarrow> pages_at c k \<noteq> []"
    unfolding sim_def by blast+
  from keys have dom: "fst ` set r = fst ` set c"
    by (metis set_map)
  show "fst (AppPathsRoutes_add p g r) = fst (AppPathsCollector_push p g c)"
    by (simp add: add_count push_count dom pages pages_at_outside)
  have "map fst (snd (AppPathsRoutes_add p g r)) = map fst (snd (AppPathsCollector_push p g c))"
    by (simp add: add_keys push_keys keys dom)
  moreover have "pages_at (snd (AppPathsRoutes_add p g r)) k =
      sort (pages_at (snd (AppPathsCollector_push p g c)) k)" for k
    by (simp add: add_pages_at push_pages_at dom pages sort_sort_snoc pages_at_outside)
  moreover have "pages_at (snd (AppPathsCollector_push p g c)) k \<noteq> []"
    if "k \<in> fst ` set (snd (AppPathsCollector_push p g c))" for k
  proof (cases "k = p")
    case True
    then show ?thesis by (simp add: push_pages_at)
  next
    case False
    from that have "k \<in> set (map fst (snd (AppPathsCollector_push p g c)))"
      by simp
    with False have "k \<in> fst ` set c"
      unfolding push_keys by (auto split: if_splits)
    with False show ?thesis by (simp add: push_pages_at ne)
  qed
  ultimately show "sim (snd (AppPathsRoutes_add p g r)) (snd (AppPathsCollector_push p g c))"
    unfolding sim_def by blast
qed

lemma adds_Cons:
  "AppPathsRoutes_adds ((p, g) # ps) r =
     (fst (AppPathsRoutes_add p g r) #
        fst (AppPathsRoutes_adds ps (snd (AppPathsRoutes_add p g r))),
      snd (AppPathsRoutes_adds ps (snd (AppPathsRoutes_add p g r))))"
  by (simp split: prod.splits)

lemma sim_run:
  "sim r c \<Longrightarrow>
   fst (AppPathsRoutes_adds ps r) = fst (AppPathsCollector_pushes ps c) \<and>
   sim (snd (AppPathsRoutes_adds ps r)) (snd (AppPathsCollector_pushes ps c))"
proof (induction ps arbitrary: r c)
  case Nil
  then show ?case by simp
next
  case (Cons x ps)
  obtain p g where x: "x = (p, g)" by (cases x)
  from sim_step [OF Cons.prems, of p g]
  have n: "fst (AppPathsRoutes_add p g r) = fst (AppPathsCollector_push p g c)"
    and s: "sim (snd (AppPathsRoutes_add p g r)) (snd (AppPathsCollector_push p g c))"
    by simp_all
  from Cons.IH [OF s] n show ?case
    unfolding x pushes_Cons adds_Cons by simp
qed

lemma routes_get:
  "k \<in> fst ` set r \<Longrightarrow>
   AppPathsRoutes_get k r =
     Some \<lparr>page = last_element (pages_at r k), pathname = k, appPaths = pages_at r k\<rparr>"
  by (simp add: AppPathsRoutes_get_def map_of_inside)

lemma sim_toSortedArray:
  assumes "sim r c"
  shows "AppPathsRoutes_toSortedArray r = map Some (AppPathsCollector_toSortedArray c)"
proof -
  from assms have keys: "map fst r = map fst c"
    and pages: "\<And>k. pages_at r k = sort (pages_at c k)"
    unfolding sim_def by blast+
  from keys have dom: "fst ` set r = fst ` set c"
    by (metis set_map)
  have "AppPathsRoutes_get k r = Some (aggregate k (pages_at c k))"
    if "k \<in> fst ` set c" for k
    using that by (simp add: routes_get dom pages aggregate_def)
  then show ?thesis
    by (simp add: AppPathsRoutes_toSortedArray_def AppPathsRoutes_pathnames_def
        toSortedArray_aggregate keys)
qed

text \<open>
  C10. For every sequence of insertions into a new \<^verbatim>\<open>AppPathsRoutes\<close> and a new
  \<^verbatim>\<open>AppPathsCollector\<close>, \<^verbatim>\<open>add\<close> and \<^verbatim>\<open>push\<close> return the same count at each
  insertion, and \<^verbatim>\<open>toSortedArray()\<close> returns the same list of aggregates on both (every
  element of the former is an aggregate, none is null).
\<close>

theorem AppPathsRoutes_equivalent_to_AppPathsCollector:
  "fst (AppPathsRoutes_adds ps AppPathsRoutes_new) =
     fst (AppPathsCollector_pushes ps AppPathsCollector_new) \<and>
   AppPathsRoutes_toSortedArray (snd (AppPathsRoutes_adds ps AppPathsRoutes_new)) =
     map Some (AppPathsCollector_toSortedArray
       (snd (AppPathsCollector_pushes ps AppPathsCollector_new)))"
  using sim_run [OF sim_new, of ps] by (simp add: sim_toSortedArray)

theorem AppPathsRoutes_equivalent_to_AppPathsCollector_witness:
  "fst (AppPathsRoutes_adds
     [(''/a'', ''/(x)/a/page''), (''/b'', ''/b/page''), (''/a'', ''/(g)/a/page'')]
     AppPathsRoutes_new) = [1, 1, 2] \<and>
   AppPathsRoutes_toSortedArray (snd (AppPathsRoutes_adds
     [(''/a'', ''/(x)/a/page''), (''/b'', ''/b/page''), (''/a'', ''/(g)/a/page'')]
     AppPathsRoutes_new)) =
   [Some \<lparr>page = Some ''/(x)/a/page'', pathname = ''/a'',
           appPaths = [''/(g)/a/page'', ''/(x)/a/page'']\<rparr>,
    Some \<lparr>page = Some ''/b/page'', pathname = ''/b'', appPaths = [''/b/page'']\<rparr>]"
proof -
  have n: "fst (AppPathsCollector_pushes
       [(''/a'', ''/(x)/a/page''), (''/b'', ''/b/page''), (''/a'', ''/(g)/a/page'')]
       AppPathsCollector_new) = [1, 1, 2]"
    by code_simp
  have v: "AppPathsCollector_toSortedArray (snd (AppPathsCollector_pushes
       [(''/a'', ''/(x)/a/page''), (''/b'', ''/b/page''), (''/a'', ''/(g)/a/page'')]
       AppPathsCollector_new)) =
     [\<lparr>page = Some ''/(x)/a/page'', pathname = ''/a'',
        appPaths = [''/(g)/a/page'', ''/(x)/a/page'']\<rparr>,
      \<lparr>page = Some ''/b/page'', pathname = ''/b'', appPaths = [''/b/page'']\<rparr>]"
    by code_simp
  from AppPathsRoutes_equivalent_to_AppPathsCollector
         [of "[(''/a'', ''/(x)/a/page''), (''/b'', ''/b/page''), (''/a'', ''/(g)/a/page'')]"]
       n v
  show ?thesis by simp
qed


section \<open>Reloading\<close>

lemma zip_index_set:
  "set (zip xs [0..<length xs]) = {(xs ! i, i) | i. i < length xs}"
  unfolding set_zip by force

lemma every_index_iff:
  "list_all (\<lambda>(c, i). ref c = ref (ms ! i)) (zip xs [0..<length xs]) \<longleftrightarrow>
   (\<forall>i < length xs. ref (xs ! i) = ref (ms ! i))"
  unfolding list_all_iff zip_index_set by blast

lemma same_matchers_iff: "same_matchers xs ms \<longleftrightarrow> map ref xs = map ref ms"
proof (cases "length xs = length ms")
  case False
  then have "map ref xs \<noteq> map ref ms"
    by (metis length_map)
  with False show ?thesis
    by (simp add: same_matchers_def)
next
  case True
  have "(\<forall>i < length xs. ref (xs ! i) = ref (ms ! i)) \<longleftrightarrow> map ref xs = map ref ms"
  proof
    assume "\<forall>i < length xs. ref (xs ! i) = ref (ms ! i)"
    with True show "map ref xs = map ref ms"
      by (intro nth_equalityI) simp_all
  next
    assume eq: "map ref xs = map ref ms"
    show "\<forall>i < length xs. ref (xs ! i) = ref (ms ! i)"
    proof (intro allI impI)
      fix i assume i: "i < length xs"
      from eq have "map ref xs ! i = map ref ms ! i" by simp
      with i True show "ref (xs ! i) = ref (ms ! i)" by simp
    qed
  qed
  moreover have "same_matchers xs ms \<longleftrightarrow> (\<forall>i < length xs. ref (xs ! i) = ref (ms ! i))"
    unfolding same_matchers_def every_index_iff using True by simp
  ultimately show ?thesis by simp
qed

lemma foldl_append_concat: "foldl (\<lambda>a m. a @ m) acc xss = acc @ concat xss"
  by (induction xss arbitrary: acc) simp_all

lemma forceReload_provider_failure:
  assumes "Promise_all (map fetch (providers s)) = Inl err"
  shows "forceReload g sd fetch pushed s =
           (Inr (), s\<lparr>providers := providers s @ pushed,
                      waitTillReadyPromise := Some (Rejected err),
                      reloadHasBeenCalled := True,
                      lastCompilationID := length (providers s)\<rparr>)"
  using assms
  by (simp add: forceReload_def try_catch_finally_def forceReload_try_def Let_def settle_def
      push_def compilationID_def)

lemma forceReload_short_circuit:
  assumes "Promise_all (map fetch (providers s)) = Inr fetched"
    and "map ref (previousMatchers s) = map ref (concat fetched)"
  shows "forceReload g sd fetch pushed s =
           (Inr (), s\<lparr>providers := providers s @ pushed,
                      matchers := (matchers s)\<lparr>duplicates := snd (g (concat fetched))\<rparr>,
                      waitTillReadyPromise := Some Fulfilled,
                      reloadHasBeenCalled := True,
                      lastCompilationID := length (providers s)\<rparr>)"
  using assms
  by (simp add: forceReload_def try_catch_finally_def forceReload_try_def Let_def settle_def
      push_def compilationID_def same_matchers_iff foldl_append_concat split: prod.splits)

lemma forceReload_recompiled:
  assumes "Promise_all (map fetch (providers s)) = Inr fetched"
    and "map ref (previousMatchers s) \<noteq> map ref (concat fetched)"
  shows "forceReload g sd fetch pushed s =
           (Inr (), s\<lparr>providers := providers s @ pushed,
                      matchers :=
                        \<lparr>static = filter (\<lambda>m. \<not> isDynamic m) (concat fetched),
                         dynamic = sd (filter isDynamic (concat fetched)),
                         duplicates = snd (g (concat fetched)),
                         all = fst (g (concat fetched))\<rparr>,
                      waitTillReadyPromise :=
                        Some (if pushed = [] then Fulfilled
                              else Rejected (Error ''Invariant: expected compilation to finish before new matchers were added, possible missing await'')),
                      reloadHasBeenCalled := True,
                      previousMatchers := concat fetched,
                      lastCompilationID := length (providers s)\<rparr>)"
  using assms
  by (simp add: forceReload_def try_catch_finally_def forceReload_try_def Let_def settle_def
      push_def compilationID_def same_matchers_iff foldl_append_concat split: prod.splits)


text \<open>
  C1, as the code has it. When a provider's \<^verbatim>\<open>matchers()\<close> call throws, the reload fails
  (the promise that \<^verbatim>\<open>waitTillReady\<close> awaits is rejected with the provider's error) and
  the four fields of the snapshot are exactly as they were before the call. When the version
  counter changes during a compilation that reaches the final check, the reload fails with
  the invariant error only after the snapshot has been replaced: the four fields then hold
  what was compiled from the newly fetched list.
\<close>

theorem forceReload_failure_and_snapshot:
  "(Promise_all (map fetch (providers s)) = Inl err \<longrightarrow>
      waitTillReadyPromise (snd (forceReload g sd fetch pushed s)) = Some (Rejected err) \<and>
      matchers (snd (forceReload g sd fetch pushed s)) = matchers s) \<and>
   (Promise_all (map fetch (providers s)) = Inr fetched \<and> pushed \<noteq> [] \<and>
    map ref (previousMatchers s) \<noteq> map ref (concat fetched) \<longrightarrow>
      waitTillReadyPromise (snd (forceReload g sd fetch pushed s)) =
        Some (Rejected (Error ''Invariant: expected compilation to finish before new matchers were added, possible missing await'')) \<and>
      matchers (snd (forceReload g sd fetch pushed s)) =
        \<lparr>static = filter (\<lambda>m. \<not> isDynamic m) (concat fetched),
         dynamic = sd (filter isDynamic (concat fetched)),
         duplicates = snd (g (concat fetched)),
         all = fst (g (concat fetched))\<rparr>)"
proof (intro conjI impI)
  assume a: "Promise_all (map fetch (providers s)) = Inl err"
  show "waitTillReadyPromise (snd (forceReload g sd fetch pushed s)) = Some (Rejected err)"
    by (simp add: forceReload_provider_failure [OF a])
  show "matchers (snd (forceReload g sd fetch pushed s)) = matchers s"
    by (simp add: forceReload_provider_failure [OF a])
next
  assume a: "Promise_all (map fetch (providers s)) = Inr fetched \<and> pushed \<noteq> [] \<and>
    map ref (previousMatchers s) \<noteq> map ref (concat fetched)"
  then have f: "Promise_all (map fetch (providers s)) = Inr fetched"
    and p: "pushed \<noteq> []"
    and d: "map ref (previousMatchers s) \<noteq> map ref (concat fetched)"
    by simp_all
  show "waitTillReadyPromise (snd (forceReload g sd fetch pushed s)) =
        Some (Rejected (Error ''Invariant: expected compilation to finish before new matchers were added, possible missing await''))"
    using p by (simp add: forceReload_recompiled [OF f d])
  show "matchers (snd (forceReload g sd fetch pushed s)) =
        \<lparr>static = filter (\<lambda>m. \<not> isDynamic m) (concat fetched),
         dynamic = sd (filter isDynamic (concat fetched)),
         duplicates = snd (g (concat fetched)),
         all = fst (g (concat fetched))\<rparr>"
    by (simp add: forceReload_recompiled [OF f d])
qed

theorem forceReload_failure_and_snapshot_witness:
  "Promise_all (map fetch_failing (providers compiled)) = Inl (Error ''ENOENT'') \<and>
   waitTillReadyPromise
     (snd (forceReload groupMatcherResults (sort_key identity) fetch_failing [] compiled)) =
     Some (Rejected (Error ''ENOENT'')) \<and>
   matchers (snd (forceReload groupMatcherResults (sort_key identity) fetch_failing [] compiled)) =
     matchers compiled \<and>
   static (matchers compiled) = [about_matcher] \<and>
   Promise_all (map fetch_routes (providers registered)) = Inr [[about_matcher, post_matcher]] \<and>
   [1::nat] \<noteq> [] \<and>
   map ref (previousMatchers registered) \<noteq> map ref (concat [[about_matcher, post_matcher]]) \<and>
   matchers (snd (forceReload groupMatcherResults (sort_key identity) fetch_routes [1] registered)) =
     \<lparr>static = [about_matcher], dynamic = [post_matcher], duplicates = [],
      all = [(''/about'', [about_matcher]), (''/posts/[slug]'', [post_matcher])]\<rparr>"
proof -
  have a: "Promise_all (map fetch_failing (providers compiled)) = Inl (Error ''ENOENT'')"
    by code_simp
  have b: "Promise_all (map fetch_routes (providers registered)) =
      Inr [[about_matcher, post_matcher]]"
    by code_simp
  have c: "map ref (previousMatchers registered) \<noteq>
      map ref (concat [[about_matcher, post_matcher]])"
    by code_simp
  have d: "static (matchers compiled) = [about_matcher]"
    by code_simp
  have e: "\<lparr>static = filter (\<lambda>m. \<not> isDynamic m) (concat [[about_matcher, post_matcher]]),
         dynamic = sort_key identity (filter isDynamic (concat [[about_matcher, post_matcher]])),
         duplicates = snd (groupMatcherResults (concat [[about_matcher, post_matcher]])),
         all = fst (groupMatcherResults (concat [[about_matcher, post_matcher]]))\<rparr> =
       \<lparr>static = [about_matcher], dynamic = [post_matcher], duplicates = [],
        all = [(''/about'', [about_matcher]), (''/posts/[slug]'', [post_matcher])]\<rparr>"
    by code_simp
  from forceReload_failure_and_snapshot
         [of fetch_failing compiled "Error ''ENOENT''" groupMatcherResults "sort_key identity" "[]"]
       forceReload_failure_and_snapshot
         [of fetch_routes registered _ groupMatcherResults "sort_key identity" "[1]"
             "[[about_matcher, post_matcher]]"]
       a b c d e
  show ?thesis by simp
qed

text \<open>
  The snapshot is not kept when the version counter changes: a provider is registered while
  the first reload of a manager waits for its provider; the reload fails with the invariant
  error, and \<^verbatim>\<open>static\<close>, empty before the call, holds the new matcher afterwards.
\<close>

theorem forceReload_version_change_replaces_snapshot:
  "compilationID registered = 1 \<and>
   compilationID (snd (forceReload groupMatcherResults (sort_key identity) fetch_routes [1] registered)) = 2 \<and>
   waitTillReadyPromise
     (snd (forceReload groupMatcherResults (sort_key identity) fetch_routes [1] registered)) =
     Some (Rejected (Error ''Invariant: expected compilation to finish before new matchers were added, possible missing await'')) \<and>
   static (matchers registered) = [] \<and>
   static (matchers
     (snd (forceReload groupMatcherResults (sort_key identity) fetch_routes [1] registered))) =
     [about_matcher] \<and>
   matchers (snd (forceReload groupMatcherResults (sort_key identity) fetch_routes [1] registered)) \<noteq>
     matchers registered"
  by code_simp

text \<open>
  C3, as the code has it. When the version counter has changed at the final check of a
  reload, the invariant error is caught inside \<^verbatim>\<open>forceReload\<close>: the call itself
  completes without an error, the error is delivered by rejecting the promise that
  \<^verbatim>\<open>waitTillReady\<close> awaits, so that a later \<^verbatim>\<open>waitTillReady\<close> throws it, and
  \<^verbatim>\<open>matchAll\<close> keeps failing its own check after the run.
\<close>

theorem forceReload_version_change_rejects_waitTillReady:
  assumes "Promise_all (map fetch (providers s)) = Inr fetched"
    and "pushed \<noteq> []"
    and "map ref (previousMatchers s) \<noteq> map ref (concat fetched)"
  shows "fst (forceReload g sd fetch pushed s) = Inr () \<and>
         waitTillReadyPromise (snd (forceReload g sd fetch pushed s)) =
           Some (Rejected (Error ''Invariant: expected compilation to finish before new matchers were added, possible missing await'')) \<and>
         waitTillReady (snd (forceReload g sd fetch pushed s)) =
           Some (Inl (Error ''Invariant: expected compilation to finish before new matchers were added, possible missing await''),
                 snd (forceReload g sd fetch pushed s)) \<and>
         matchAll normalizer isDynamicRoute match_of pathname' options'
             (snd (forceReload g sd fetch pushed s)) =
           \<lparr>yielded = [], consulted = [],
            thrown = Some (Error ''Invariant: expected routes to have been loaded before match'')\<rparr>"
proof -
  have w: "waitTillReadyPromise (snd (forceReload g sd fetch pushed s)) =
      Some (Rejected (Error ''Invariant: expected compilation to finish before new matchers were added, possible missing await''))"
    using assms(2) by (simp add: forceReload_recompiled [OF assms(1,3)])
  have "lastCompilationID (snd (forceReload g sd fetch pushed s)) \<noteq>
      compilationID (snd (forceReload g sd fetch pushed s))"
    using assms(2) by (simp add: forceReload_recompiled [OF assms(1,3)] compilationID_def)
  then have m: "matchAll normalizer isDynamicRoute match_of pathname' options'
             (snd (forceReload g sd fetch pushed s)) =
           \<lparr>yielded = [], consulted = [],
            thrown = Some (Error ''Invariant: expected routes to have been loaded before match'')\<rparr>"
    by (simp add: matchAll_def)
  have f: "fst (forceReload g sd fetch pushed s) = Inr ()"
    by (simp add: forceReload_recompiled [OF assms(1,3)])
  from w have "waitTillReady (snd (forceReload g sd fetch pushed s)) =
           Some (Inl (Error ''Invariant: expected compilation to finish before new matchers were added, possible missing await''),
                 snd (forceReload g sd fetch pushed s))"
    by (simp add: waitTillReady_def)
  with f w m show ?thesis by blast
qed

theorem forceReload_version_change_rejects_waitTillReady_witness:
  "Promise_all (map fetch_routes (providers registered)) = Inr [[about_matcher, post_matcher]] \<and>
   [1::nat] \<noteq> [] \<and>
   map ref (previousMatchers registered) \<noteq> map ref (concat [[about_matcher, post_matcher]]) \<and>
   fst (forceReload groupMatcherResults (sort_key identity) fetch_routes [1] registered) = Inr () \<and>
   waitTillReady
     (snd (forceReload groupMatcherResults (sort_key identity) fetch_routes [1] registered)) =
     Some (Inl (Error ''Invariant: expected compilation to finish before new matchers were added, possible missing await''),
           snd (forceReload groupMatcherResults (sort_key identity) fetch_routes [1] registered)) \<and>
   matchAll plain_normalizer has_bracket (DefaultRouteMatcher_match slug_match) ''/about'' no_options
     (snd (forceReload groupMatcherResults (sort_key identity) fetch_routes [1] registered)) =
     \<lparr>yielded = [], consulted = [],
      thrown = Some (Error ''Invariant: expected routes to have been loaded before match'')\<rparr>"
proof -
  have b: "Promise_all (map fetch_routes (providers registered)) =
      Inr [[about_matcher, post_matcher]]"
    by code_simp
  have c: "map ref (previousMatchers registered) \<noteq>
      map ref (concat [[about_matcher, post_matcher]])"
    by code_simp
  have p: "[1::nat] \<noteq> []" by simp
  from forceReload_version_change_rejects_waitTillReady [OF b p c] b c show ?thesis
    by simp
qed

text \<open>
  The claim as stated fails on the same run: the version counter goes from 1 to 2 during the
  reload, the call completes without an error, and the version recorded as last compiled
  advances from 0 to 1, the version of the stale run.
\<close>

theorem forceReload_resolves_and_records_stale_version:
  "compilationID registered = 1 \<and>
   compilationID
     (snd (forceReload groupMatcherResults (sort_key identity) fetch_routes [1] registered)) = 2 \<and>
   fst (forceReload groupMatcherResults (sort_key identity) fetch_routes [1] registered) = Inr () \<and>
   lastCompilationID registered = 0 \<and>
   lastCompilationID
     (snd (forceReload groupMatcherResults (sort_key identity) fetch_routes [1] registered)) = 1 \<and>
   lastCompilationID
     (snd (forceReload groupMatcherResults (sort_key identity) fetch_routes [1] registered)) \<noteq>
     lastCompilationID registered"
  by code_simp

text \<open>
  C6. When the freshly fetched matcher list has the same length as the list kept from the
  previous reload and the same objects at the same positions, the reload leaves
  \<^verbatim>\<open>static\<close> and \<^verbatim>\<open>dynamic\<close> (and \<^verbatim>\<open>all\<close>) as they were, and \<^verbatim>\<open>duplicates\<close> is
  the duplicates map computed from the fetched list.
\<close>

theorem forceReload_same_matchers_keeps_static_and_dynamic:
  assumes "Promise_all (map fetch (providers s)) = Inr fetched"
    and "map ref (previousMatchers s) = map ref (concat fetched)"
  shows "static (matchers (snd (forceReload g sd fetch pushed s))) = static (matchers s) \<and>
         dynamic (matchers (snd (forceReload g sd fetch pushed s))) = dynamic (matchers s) \<and>
         all (matchers (snd (forceReload g sd fetch pushed s))) = all (matchers s) \<and>
         duplicates (matchers (snd (forceReload g sd fetch pushed s))) = snd (g (concat fetched))"
proof -
  have "matchers (snd (forceReload g sd fetch pushed s)) =
      (matchers s)\<lparr>duplicates := snd (g (concat fetched))\<rparr>"
    unfolding forceReload_short_circuit [OF assms] by simp
  then show ?thesis by simp
qed

theorem forceReload_same_matchers_keeps_static_and_dynamic_witness:
  "Promise_all (map fetch_routes (providers compiled)) = Inr [[about_matcher, post_matcher]] \<and>
   map ref (previousMatchers compiled) = map ref (concat [[about_matcher, post_matcher]]) \<and>
   static (matchers (snd (forceReload groupMatcherResults (sort_key identity) fetch_routes [] compiled))) =
     [about_matcher] \<and>
   dynamic (matchers (snd (forceReload groupMatcherResults (sort_key identity) fetch_routes [] compiled))) =
     [post_matcher] \<and>
   duplicates (matchers (snd (forceReload groupMatcherResults (sort_key identity) fetch_routes [] compiled))) = []"
proof -
  have a: "Promise_all (map fetch_routes (providers compiled)) =
      Inr [[about_matcher, post_matcher]]"
    by code_simp
  have b: "map ref (previousMatchers compiled) = map ref (concat [[about_matcher, post_matcher]])"
    by code_simp
  have c: "static (matchers compiled) = [about_matcher]" "dynamic (matchers compiled) = [post_matcher]"
    "snd (groupMatcherResults (concat [[about_matcher, post_matcher]])) = []"
    by code_simp+
  from forceReload_same_matchers_keeps_static_and_dynamic
         [OF a b, of groupMatcherResults "sort_key identity" "[]"] a b c
  show ?thesis by simp
qed

text \<open>
  C2. In every state in which the version recorded as last compiled differs from the version
  counter, a \<^verbatim>\<open>matchAll\<close> run throws the invariant error at once: nothing is yielded and
  no matcher is consulted. That is the state after \<^verbatim>\<open>push\<close> of at least one provider
  following a \<^verbatim>\<open>forceReload\<close>.
\<close>

theorem matchAll_refuses_stale_snapshot:
  "(lastCompilationID s \<noteq> compilationID s \<longrightarrow>
      matchAll normalizer isDynamicRoute match_of pathname' options' s =
        \<lparr>yielded = [], consulted = [],
         thrown = Some (Error ''Invariant: expected routes to have been loaded before match'')\<rparr>) \<and>
   (new_providers \<noteq> [] \<longrightarrow>
      matchAll normalizer isDynamicRoute match_of pathname' options'
          (push new_providers (snd (forceReload g sd fetch pushed s'))) =
        \<lparr>yielded = [], consulted = [],
         thrown = Some (Error ''Invariant: expected routes to have been loaded before match'')\<rparr>)"
proof (intro conjI impI)
  assume "lastCompilationID s \<noteq> compilationID s"
  then show "matchAll normalizer isDynamicRoute match_of pathname' options' s =
        \<lparr>yielded = [], consulted = [],
         thrown = Some (Error ''Invariant: expected routes to have been loaded before match'')\<rparr>"
    by (simp add: matchAll_def)
next
  assume n: "new_providers \<noteq> []"
  have l: "lastCompilationID (snd (forceReload g sd fetch pushed s')) = length (providers s')"
    by (simp add: forceReload_def try_catch_finally_def Let_def settle_def compilationID_def
        split: prod.splits sum.splits option.splits promise.splits)
  have p: "providers (snd (forceReload g sd fetch pushed s')) = providers s' @ pushed"
    by (simp add: forceReload_def try_catch_finally_def forceReload_try_def Let_def settle_def
        push_def split: prod.splits sum.splits option.splits promise.splits)
  have "lastCompilationID (push new_providers (snd (forceReload g sd fetch pushed s'))) \<noteq>
        compilationID (push new_providers (snd (forceReload g sd fetch pushed s')))"
    using n by (simp add: push_def compilationID_def l p)
  then show "matchAll normalizer isDynamicRoute match_of pathname' options'
          (push new_providers (snd (forceReload g sd fetch pushed s'))) =
        \<lparr>yielded = [], consulted = [],
         thrown = Some (Error ''Invariant: expected routes to have been loaded before match'')\<rparr>"
    by (simp add: matchAll_def)
qed

theorem matchAll_refuses_stale_snapshot_witness:
  "lastCompilationID (push [1] compiled) \<noteq> compilationID (push [1] compiled) \<and>
   [1::nat] \<noteq> [] \<and>
   matchAll plain_normalizer has_bracket (DefaultRouteMatcher_match slug_match) ''/about'' no_options
       (push [1] compiled) =
     \<lparr>yielded = [], consulted = [],
      thrown = Some (Error ''Invariant: expected routes to have been loaded before match'')\<rparr> \<and>
   matchAll plain_normalizer has_bracket (DefaultRouteMatcher_match slug_match) ''/about'' no_options
       (push [1] (snd (forceReload groupMatcherResults (sort_key identity) fetch_routes []
          registered))) =
     \<lparr>yielded = [], consulted = [],
      thrown = Some (Error ''Invariant: expected routes to have been loaded before match'')\<rparr> \<and>
   yielded (matchAll plain_normalizer has_bracket (DefaultRouteMatcher_match slug_match) ''/about''
       no_options compiled) =
     [\<lparr>match_definition = \<lparr>definition_pathname = ''/about''\<rparr>, match_params = []\<rparr>]"
proof -
  have a: "lastCompilationID (push [1] compiled) \<noteq> compilationID (push [1] compiled)"
    by code_simp
  have b: "[1::nat] \<noteq> []" by simp
  have c: "yielded (matchAll plain_normalizer has_bracket (DefaultRouteMatcher_match slug_match)
       ''/about'' no_options compiled) =
     [\<lparr>match_definition = \<lparr>definition_pathname = ''/about''\<rparr>, match_params = []\<rparr>]"
    by code_simp
  from matchAll_refuses_stale_snapshot
         [of "push [1] compiled" plain_normalizer has_bracket
             "DefaultRouteMatcher_match slug_match" "''/about''" no_options "[1]"
             groupMatcherResults "sort_key identity" fetch_routes "[]" registered]
       a b c
  show ?thesis by simp
qed


section \<open>The loops of matchAll\<close>

lemma successes_append: "successes v (xs @ ys) = successes v xs @ successes v ys"
  by (simp add: successes_def)

lemma yield_every_consulted:
  "\<exists>k \<le> length ms. consulted (yield_every v ms) = take k ms"
proof (induction ms)
  case Nil
  then show ?case by (simp add: finished_def)
next
  case (Cons m ms)
  then obtain k where k: "k \<le> length ms" "consulted (yield_every v ms) = take k ms"
    by blast
  show ?case
  proof (cases "v m")
    case (Inl err)
    then show ?thesis by (intro exI [of _ 1]) simp
  next
    case (Inr found)
    with k show ?thesis
      by (intro exI [of _ "Suc k"]) (cases found; simp add: consult_def)
  qed
qed

lemma yield_every_yielded:
  "yielded (yield_every v ms) = successes v (consulted (yield_every v ms))"
proof (induction ms)
  case Nil
  then show ?case by (simp add: finished_def successes_def)
next
  case (Cons m ms)
  show ?case
  proof (cases "v m")
    case (Inl err)
    then show ?thesis by (simp add: successes_def)
  next
    case (Inr found)
    with Cons show ?thesis
      by (cases found) (simp_all add: consult_def successes_def)
  qed
qed

lemma yield_every_complete:
  "thrown (yield_every v ms) = None \<Longrightarrow> consulted (yield_every v ms) = ms"
proof (induction ms)
  case Nil
  then show ?case by (simp add: finished_def)
next
  case (Cons m ms)
  show ?case
  proof (cases "v m")
    case (Inl err)
    with Cons.prems show ?thesis by simp
  next
    case (Inr found)
    with Cons show ?thesis
      by (cases found) (simp_all add: consult_def)
  qed
qed


lemma and_then_scan:
  "(\<exists>k. consulted (and_then (yield_every v xs) (yield_every v ys)) = take k (xs @ ys)) \<and>
   yielded (and_then (yield_every v xs) (yield_every v ys)) =
     successes v (consulted (and_then (yield_every v xs) (yield_every v ys))) \<and>
   (thrown (and_then (yield_every v xs) (yield_every v ys)) = None \<longrightarrow>
      consulted (and_then (yield_every v xs) (yield_every v ys)) = xs @ ys)"
proof (cases "thrown (yield_every v xs)")
  case (Some err)
  then have r: "and_then (yield_every v xs) (yield_every v ys) = yield_every v xs"
    by (simp add: and_then_def)
  obtain k where k: "k \<le> length xs" "consulted (yield_every v xs) = take k xs"
    using yield_every_consulted by blast
  then have "consulted (yield_every v xs) = take k (xs @ ys)" by simp
  then have "\<exists>k. consulted (yield_every v xs) = take k (xs @ ys)" ..
  with Some show ?thesis
    unfolding r using yield_every_yielded [of v xs] by simp
next
  case None
  then have full: "consulted (yield_every v xs) = xs" by (rule yield_every_complete)
  obtain k where k: "k \<le> length ys" "consulted (yield_every v ys) = take k ys"
    using yield_every_consulted by blast
  have c: "consulted (and_then (yield_every v xs) (yield_every v ys)) =
      xs @ consulted (yield_every v ys)"
    using None full by (simp add: and_then_def)
  have y: "yielded (and_then (yield_every v xs) (yield_every v ys)) =
      successes v xs @ successes v (consulted (yield_every v ys))"
    using None full yield_every_yielded [of v xs] yield_every_yielded [of v ys]
    by (simp add: and_then_def)
  have t: "thrown (and_then (yield_every v xs) (yield_every v ys)) = thrown (yield_every v ys)"
    using None by (simp add: and_then_def)
  have "xs @ consulted (yield_every v ys) = take (length xs + k) (xs @ ys)"
    using k by simp
  then have "\<exists>k. xs @ consulted (yield_every v ys) = take k (xs @ ys)" ..
  then show ?thesis
    unfolding c y t using yield_every_complete [of v ys]
    by (simp add: successes_append)
qed



lemma yield_first_at_most_one: "length (yielded (yield_first v ms)) \<le> 1"
proof (induction ms)
  case Nil
  then show ?case by (simp add: finished_def)
next
  case (Cons m ms)
  show ?case
  proof (cases "v m")
    case (Inl err)
    then show ?thesis by simp
  next
    case (Inr found)
    show ?thesis
    proof (cases found)
      case None
      with Inr have "yielded (yield_first v (m # ms)) = yielded (yield_first v ms)"
        by (simp add: consult_def)
      with Cons.IH show ?thesis by simp
    next
      case (Some x)
      with Inr show ?thesis by simp
    qed
  qed
qed


lemma yield_first_step_None:
  "v m = Inr None \<Longrightarrow> yield_first v (m # ms) = consult m [] (yield_first v ms)"
  by simp

lemma yield_first_consulted:
  "\<exists>k \<le> length ms. consulted (yield_first v ms) = take k ms"
proof (induction ms)
  case Nil
  then show ?case by (simp add: finished_def)
next
  case (Cons m ms)
  then obtain k where k: "k \<le> length ms" "consulted (yield_first v ms) = take k ms"
    by blast
  show ?case
  proof (cases "v m")
    case (Inl err)
    then have "consulted (yield_first v (m # ms)) = take 1 (m # ms)" by simp
    then show ?thesis by (intro exI [of _ 1]) simp
  next
    case (Inr found)
    show ?thesis
    proof (cases found)
      case None
      with Inr k have "consulted (yield_first v (m # ms)) = take (Suc k) (m # ms)"
        by (simp add: consult_def)
      with k(1) show ?thesis by (intro exI [of _ "Suc k"]) simp
    next
      case (Some x)
      with Inr have "consulted (yield_first v (m # ms)) = take 1 (m # ms)" by simp
      then show ?thesis by (intro exI [of _ 1]) simp
    qed
  qed
qed


lemma yield_first_none:
  "yielded (yield_first v ms) = [] \<Longrightarrow> thrown (yield_first v ms) = None \<Longrightarrow> m' \<in> set ms \<Longrightarrow>
   v m' = Inr None"
proof (induction ms)
  case Nil
  then show ?case by simp
next
  case (Cons m ms)
  show ?case
  proof (cases "v m")
    case (Inl err)
    with Cons.prems(2) show ?thesis by simp
  next
    case (Inr r)
    show ?thesis
    proof (cases r)
      case None
      with Inr have step: "yield_first v (m # ms) = consult m [] (yield_first v ms)"
        by simp
      from Cons.prems(1) have y: "yielded (yield_first v ms) = []"
        unfolding step by (simp add: consult_def)
      from Cons.prems(2) have t: "thrown (yield_first v ms) = None"
        unfolding step by (simp add: consult_def)
      show ?thesis
      proof (cases "m' = m")
        case True
        with Inr None show ?thesis by simp
      next
        case False
        with Cons.prems(3) have "m' \<in> set ms" by simp
        from Cons.IH [OF y t this] show ?thesis .
      qed
    next
      case (Some x)
      with Inr Cons.prems(1) show ?thesis by simp
    qed
  qed
qed


lemma yield_first_found:
  "yielded (yield_first v ms) = [found] \<Longrightarrow>
   \<exists>k < length ms. v (ms ! k) = Inr (Some found) \<and> (\<forall>j < k. v (ms ! j) = Inr None) \<and>
     consulted (yield_first v ms) = take (Suc k) ms"
proof (induction ms)
  case Nil
  then show ?case by (simp add: finished_def)
next
  case (Cons m ms)
  show ?case
  proof (cases "v m")
    case (Inl err)
    with Cons.prems show ?thesis by simp
  next
    case (Inr r)
    show ?thesis
    proof (cases r)
      case None
      with Inr have step: "yield_first v (m # ms) = consult m [] (yield_first v ms)"
        by simp
      from Cons.prems have "yielded (yield_first v ms) = [found]"
        unfolding step by (simp add: consult_def)
      from Cons.IH [OF this] obtain k where k1: "k < length ms"
        and k2: "v (ms ! k) = Inr (Some found)"
        and k3: "\<And>j. j < k \<Longrightarrow> v (ms ! j) = Inr None"
        and k4: "consulted (yield_first v ms) = take (Suc k) ms"
        by blast
      have a: "Suc k < length (m # ms)" using k1 by simp
      have b: "v ((m # ms) ! Suc k) = Inr (Some found)" using k2 by simp
      have c: "v ((m # ms) ! j) = Inr None" if "j < Suc k" for j
      proof (cases j)
        case 0
        with Inr None show ?thesis by simp
      next
        case (Suc i)
        with that have "i < k" by simp
        from k3 [OF this] Suc show ?thesis by simp
      qed
      have d: "consulted (yield_first v (m # ms)) = take (Suc (Suc k)) (m # ms)"
        unfolding step using k4 by (simp add: consult_def)
      from a b c d show ?thesis by blast
    next
      case (Some x)
      with Inr Cons.prems have x: "x = found" by simp
      have a: "0 < length (m # ms)" by simp
      have b: "v ((m # ms) ! 0) = Inr (Some found)" using Inr Some x by simp
      have c: "\<forall>j < (0::nat). v ((m # ms) ! j) = Inr None" by simp
      have d: "consulted (yield_first v (m # ms)) = take (Suc 0) (m # ms)"
        using Inr Some by simp
      from a b c d show ?thesis by blast
    qed
  qed
qed


lemma yield_first_all_none:
  "(\<forall>m \<in> set ms. v m = Inr None) \<Longrightarrow>
   yield_first v ms = \<lparr>yielded = [], consulted = ms, thrown = None\<rparr>"
proof (induction ms)
  case Nil
  then show ?case by (simp add: finished_def)
next
  case (Cons m ms)
  then have m: "v m = Inr None" and rest: "\<forall>m \<in> set ms. v m = Inr None"
    by simp_all
  from Cons.IH [OF rest] m show ?case
    by (simp add: consult_def)
qed

lemma yield_first_at:
  "k < length ms \<Longrightarrow> (\<forall>j < k. v (ms ! j) = Inr None) \<Longrightarrow>
   yield_first v ms =
     (case v (ms ! k) of
        Inl err \<Rightarrow> \<lparr>yielded = [], consulted = take (Suc k) ms, thrown = Some err\<rparr>
      | Inr None \<Rightarrow> yield_first v ms
      | Inr (Some found) \<Rightarrow> \<lparr>yielded = [found], consulted = take (Suc k) ms, thrown = None\<rparr>)"
proof (induction ms arbitrary: k)
  case Nil
  then show ?case by simp
next
  case (Cons m ms)
  show ?case
  proof (cases k)
    case 0
    then show ?thesis
      by (simp split: sum.splits option.splits)
  next
    case (Suc i)
    with Cons.prems have i: "i < length ms" by simp
    from Cons.prems(2) Suc have m: "v m = Inr None" by auto
    have rest: "\<forall>j < i. v (ms ! j) = Inr None"
    proof (intro allI impI)
      fix j assume "j < i"
      then have "Suc j < k" using Suc by simp
      with Cons.prems(2) have "v ((m # ms) ! Suc j) = Inr None" by blast
      then show "v (ms ! j) = Inr None" by simp
    qed
    from Cons.IH [OF i rest] m Suc show ?thesis
      by (simp add: consult_def split: sum.splits option.splits)
  qed
qed

lemma and_then_consult:
  "and_then (consult m ys r) r' = consult m ys (and_then r r')"
  by (cases "thrown r") (simp_all add: and_then_def consult_def)

lemma and_then_finished: "and_then finished r = r"
  by (simp add: and_then_def finished_def)

lemma and_then_yield_every:
  "and_then (yield_every v xs) (yield_every v ys) = yield_every v (xs @ ys)"
proof (induction xs)
  case Nil
  then show ?case by (simp add: and_then_finished)
next
  case (Cons m xs)
  show ?case
  proof (cases "v m")
    case (Inl err)
    then show ?thesis by (simp add: and_then_def)
  next
    case (Inr found)
    with Cons show ?thesis
      by (cases found) (simp_all add: and_then_consult)
  qed
qed

lemma successes_Cons:
  "successes v (m # ms) =
     (case v m of Inr (Some found) \<Rightarrow> [found] | _ \<Rightarrow> []) @ successes v ms"
  by (simp add: successes_def)

lemma yield_every_no_throw:
  "(\<forall>m \<in> set ms. \<forall>err. v m \<noteq> Inl err) \<Longrightarrow>
   yield_every v ms = \<lparr>yielded = successes v ms, consulted = ms, thrown = None\<rparr>"
proof (induction ms)
  case Nil
  then show ?case by (simp add: finished_def successes_def)
next
  case (Cons m ms)
  then have rest: "\<forall>m \<in> set ms. \<forall>err. v m \<noteq> Inl err" by simp
  from Cons.prems obtain found where m: "v m = Inr found"
    by (cases "v m") auto
  from Cons.IH [OF rest] m show ?case
    by (cases found) (simp_all add: consult_def successes_Cons)
qed

lemma yield_every_throw_at:
  "k < length ms \<Longrightarrow> (\<forall>j < k. \<forall>err. v (ms ! j) \<noteq> Inl err) \<Longrightarrow> v (ms ! k) = Inl e \<Longrightarrow>
   yield_every v ms =
     \<lparr>yielded = successes v (take k ms), consulted = take (Suc k) ms, thrown = Some e\<rparr>"
proof (induction ms arbitrary: k)
  case Nil
  then show ?case by simp
next
  case (Cons m ms)
  show ?case
  proof (cases k)
    case 0
    with Cons.prems(3) show ?thesis
      by (simp add: successes_def)
  next
    case (Suc i)
    with Cons.prems have i: "i < length ms" and e: "v (ms ! i) = Inl e" by simp_all
    from Cons.prems(2) Suc have "\<forall>err. v ((m # ms) ! 0) \<noteq> Inl err" by blast
    then obtain found where m: "v m = Inr found"
      by (cases "v m") auto
    have rest: "\<forall>j < i. \<forall>err. v (ms ! j) \<noteq> Inl err"
    proof (intro allI impI)
      fix j err assume "j < i"
      then have "Suc j < k" using Suc by simp
      with Cons.prems(2) have "v ((m # ms) ! Suc j) \<noteq> Inl err" by blast
      then show "v (ms ! j) \<noteq> Inl err" by simp
    qed
    from Cons.IH [OF i rest e] m Suc show ?thesis
      by (cases found) (simp_all add: consult_def successes_Cons)
  qed
qed


section \<open>Validation and matching\<close>

text \<open>
  C7. When the normalized options carry a locale context whose \<^verbatim>\<open>inferredFromDefault\<close> is
  true, validating a matcher that is not locale-aware calls the matcher's \<^verbatim>\<open>match\<close> with
  \<^verbatim>\<open>{ pathname: i18n.pathname }\<close>, the pathname without the locale, and returns its
  answer. (In the example, \<^verbatim>\<open>/en/about\<close> with the inferred locale \<^verbatim>\<open>en\<close> matches the
  matcher of \<^verbatim>\<open>/about\<close>, which the request pathname itself does not match.)
\<close>

theorem validate_strips_inferred_locale:
  assumes "\<not> isLocale m"
    and "i18n (options normalized) = Some l"
    and "inferredFromDefault l"
  shows "validate match_of m normalized = Inr (match_of m (MatchPathname (i18n_pathname l)))"
  using assms by (simp add: validate_def)

theorem validate_strips_inferred_locale_witness:
  "\<not> isLocale about_matcher \<and>
   i18n (options (plain_normalizer ''/en/about'' inferred_en_about)) =
     Some \<lparr>i18n_pathname = ''/about'', detectedLocale = Some ''en'', inferredFromDefault = True\<rparr> \<and>
   inferredFromDefault
     \<lparr>i18n_pathname = ''/about'', detectedLocale = Some ''en'', inferredFromDefault = True\<rparr> \<and>
   validate (DefaultRouteMatcher_match slug_match) about_matcher
       (plain_normalizer ''/en/about'' inferred_en_about) =
     Inr (Some \<lparr>match_definition = \<lparr>definition_pathname = ''/about''\<rparr>, match_params = []\<rparr>) \<and>
   DefaultRouteMatcher_match slug_match about_matcher
       (MatchNormalized (plain_normalizer ''/en/about'' inferred_en_about)) = None"
proof -
  have a: "\<not> isLocale about_matcher" by code_simp
  have b: "i18n (options (plain_normalizer ''/en/about'' inferred_en_about)) =
     Some \<lparr>i18n_pathname = ''/about'', detectedLocale = Some ''en'', inferredFromDefault = True\<rparr>"
    by code_simp
  have c: "inferredFromDefault
     \<lparr>i18n_pathname = ''/about'', detectedLocale = Some ''en'', inferredFromDefault = True\<rparr>"
    by simp
  have d: "DefaultRouteMatcher_match slug_match about_matcher (MatchPathname ''/about'') =
     Some \<lparr>match_definition = \<lparr>definition_pathname = ''/about''\<rparr>, match_params = []\<rparr>"
    by code_simp
  have e: "DefaultRouteMatcher_match slug_match about_matcher
       (MatchNormalized (plain_normalizer ''/en/about'' inferred_en_about)) = None"
    by code_simp
  from validate_strips_inferred_locale [OF a b c, of "DefaultRouteMatcher_match slug_match"]
    a b c d e
  show ?thesis by simp
qed

text \<open>
  C8. Validating a locale-aware matcher throws the invariant error when the normalized
  options carry no locale context, and returns the answer of the matcher's \<^verbatim>\<open>match\<close> on
  the locale context when there is one.
\<close>

theorem validate_locale_matcher:
  assumes "isLocale m"
  shows "(i18n (options normalized) = None \<longrightarrow>
            validate match_of m normalized =
              Inl (Error ''Invariant: expected locale matcher to have locale information for matching'')) \<and>
         (\<forall>l. i18n (options normalized) = Some l \<longrightarrow>
            validate match_of m normalized = Inr (match_of m (MatchLocale l)))"
  using assms by (simp add: validate_def)

theorem validate_locale_matcher_witness:
  "isLocale contact_matcher \<and>
   i18n (options (plain_normalizer ''/contact'' no_options)) = None \<and>
   validate (DefaultRouteMatcher_match slug_match) contact_matcher
       (plain_normalizer ''/contact'' no_options) =
     Inl (Error ''Invariant: expected locale matcher to have locale information for matching'') \<and>
   i18n (options (plain_normalizer ''/en/about'' inferred_en_about)) =
     Some \<lparr>i18n_pathname = ''/about'', detectedLocale = Some ''en'', inferredFromDefault = True\<rparr> \<and>
   validate (DefaultRouteMatcher_match slug_match) contact_matcher
       (plain_normalizer ''/en/about'' inferred_en_about) =
     Inr (DefaultRouteMatcher_match slug_match contact_matcher
            (MatchLocale \<lparr>i18n_pathname = ''/about'', detectedLocale = Some ''en'',
                           inferredFromDefault = True\<rparr>))"
proof -
  have a: "isLocale contact_matcher" by code_simp
  have b: "i18n (options (plain_normalizer ''/contact'' no_options)) = None" by code_simp
  have c: "i18n (options (plain_normalizer ''/en/about'' inferred_en_about)) =
     Some \<lparr>i18n_pathname = ''/about'', detectedLocale = Some ''en'', inferredFromDefault = True\<rparr>"
    by code_simp
  from validate_locale_matcher
         [OF a, of "plain_normalizer ''/contact'' no_options" "DefaultRouteMatcher_match slug_match"]
       validate_locale_matcher
         [OF a, of "plain_normalizer ''/en/about'' inferred_en_about"
            "DefaultRouteMatcher_match slug_match"]
       a b c
  show ?thesis by simp
qed

lemma matchAll_exact:
  assumes "lastCompilationID s = compilationID s"
    and "matchedOutputPathname (options (normalizer pathname' options')) = Some out"
    and "out \<noteq> []"
  shows "matchAll normalizer isDynamicRoute match_of pathname' options' s =
           yield_first (\<lambda>m. validate match_of m (normalizer pathname' options'))
             (matchers_at (all (matchers s)) out)"
  using assms by (simp add: matchAll_def Let_def matchers_at_def split: option.splits)

lemma matchAll_scan:
  assumes "lastCompilationID s = compilationID s"
    and "matchedOutputPathname (options (normalizer pathname' options')) = None \<or>
         matchedOutputPathname (options (normalizer pathname' options')) = Some []"
  shows "matchAll normalizer isDynamicRoute match_of pathname' options' s =
           and_then
             (yield_every (\<lambda>m. validate match_of m (normalizer pathname' options'))
                (if \<not> isDynamicRoute pathname' then static (matchers s) else []))
             (yield_every (\<lambda>m. validate match_of m (normalizer pathname' options'))
                (dynamic (matchers s)))"
  using assms by (auto simp: matchAll_def Let_def)

text \<open>
  C5. When the manager is compiled and the normalized options name an output pathname (a
  string that is present and not empty, which is what the test of the code accepts), a
  \<^verbatim>\<open>matchAll\<close> run consults a prefix of the matcher list stored under that pathname in
  \<^verbatim>\<open>all\<close> (nothing when there is none), in stored order; it yields at most one match;
  a yielded match is the answer of the first matcher of the list that succeeds, and the run
  stops there; when the run ends without a match and without an error, no matcher of the
  list succeeds; and the run is the same whatever \<^verbatim>\<open>static\<close> and \<^verbatim>\<open>dynamic\<close> hold.
  The run is determined by the list: when no matcher of it succeeds or throws, the whole
  list is consulted, nothing is yielded and the run ends normally; otherwise, at the first
  matcher whose validation is not a plain failure, the run stops, having consulted the list
  up to that matcher: it has yielded that matcher's match and ends normally when the
  validation succeeds, and it has yielded nothing and ends with the error when the
  validation throws.
\<close>

theorem matchAll_exact_output:
  assumes "lastCompilationID s = compilationID s"
    and "matchedOutputPathname (options (normalizer pathname' options')) = Some out"
    and "out \<noteq> []"
    and "run = matchAll normalizer isDynamicRoute match_of pathname' options' s"
    and "entry = matchers_at (all (matchers s)) out"
    and "v = (\<lambda>m. validate match_of m (normalizer pathname' options'))"
  shows "(\<exists>k. consulted run = take k entry) \<and>
         length (yielded run) \<le> 1 \<and>
         (\<forall>found. yielded run = [found] \<longrightarrow>
            (\<exists>k < length entry. v (entry ! k) = Inr (Some found) \<and>
               (\<forall>j < k. v (entry ! j) = Inr None) \<and> consulted run = take (Suc k) entry)) \<and>
         (yielded run = [] \<and> thrown run = None \<longrightarrow> (\<forall>m \<in> set entry. v m = Inr None)) \<and>
         matchAll normalizer isDynamicRoute match_of pathname' options'
           (s\<lparr>matchers := (matchers s)\<lparr>static := others, dynamic := others'\<rparr>\<rparr>) = run \<and>
         ((\<forall>m \<in> set entry. v m = Inr None) \<longrightarrow>
            run = \<lparr>yielded = [], consulted = entry, thrown = None\<rparr>) \<and>
         (\<forall>k < length entry. (\<forall>j < k. v (entry ! j) = Inr None) \<longrightarrow>
            (\<forall>found. v (entry ! k) = Inr (Some found) \<longrightarrow>
               run = \<lparr>yielded = [found], consulted = take (Suc k) entry, thrown = None\<rparr>) \<and>
            (\<forall>err. v (entry ! k) = Inl err \<longrightarrow>
               run = \<lparr>yielded = [], consulted = take (Suc k) entry, thrown = Some err\<rparr>))"
proof -
  have run: "run = yield_first v entry"
    unfolding assms(4-6)
    by (rule matchAll_exact [where normalizer = normalizer and pathname' = pathname'
          and options' = options', OF assms(1-3)])
  have "matchAll normalizer isDynamicRoute match_of pathname' options'
           (s\<lparr>matchers := (matchers s)\<lparr>static := others, dynamic := others'\<rparr>\<rparr>) =
        yield_first v
          (matchers_at (all (matchers (s\<lparr>matchers := (matchers s)\<lparr>static := others, dynamic := others'\<rparr>\<rparr>)))
             out)"
    unfolding assms(6) using assms(1)
    by (intro matchAll_exact [where normalizer = normalizer and pathname' = pathname'
          and options' = options', OF _ assms(2,3)]) (simp add: compilationID_def)
  then have same: "matchAll normalizer isDynamicRoute match_of pathname' options'
           (s\<lparr>matchers := (matchers s)\<lparr>static := others, dynamic := others'\<rparr>\<rparr>) = run"
    by (simp add: run assms(5))
  have "\<exists>k. consulted run = take k entry"
    unfolding run using yield_first_consulted [of entry v] by blast
  moreover have "length (yielded run) \<le> 1"
    unfolding run by (rule yield_first_at_most_one)
  moreover have "\<forall>found. yielded run = [found] \<longrightarrow>
            (\<exists>k < length entry. v (entry ! k) = Inr (Some found) \<and>
               (\<forall>j < k. v (entry ! j) = Inr None) \<and> consulted run = take (Suc k) entry)"
    unfolding run using yield_first_found [of v entry] by blast
  moreover have "yielded run = [] \<and> thrown run = None \<longrightarrow> (\<forall>m \<in> set entry. v m = Inr None)"
    unfolding run using yield_first_none [of v entry] by blast
  moreover have "(\<forall>m \<in> set entry. v m = Inr None) \<longrightarrow>
            run = \<lparr>yielded = [], consulted = entry, thrown = None\<rparr>"
    unfolding run using yield_first_all_none [of entry v] by blast
  moreover have "\<forall>k < length entry. (\<forall>j < k. v (entry ! j) = Inr None) \<longrightarrow>
            (\<forall>found. v (entry ! k) = Inr (Some found) \<longrightarrow>
               run = \<lparr>yielded = [found], consulted = take (Suc k) entry, thrown = None\<rparr>) \<and>
            (\<forall>err. v (entry ! k) = Inl err \<longrightarrow>
               run = \<lparr>yielded = [], consulted = take (Suc k) entry, thrown = Some err\<rparr>)"
  proof (intro allI impI conjI)
    fix k found
    assume "k < length entry" "\<forall>j < k. v (entry ! j) = Inr None" "v (entry ! k) = Inr (Some found)"
    from yield_first_at [OF this(1,2)] this(3)
    show "run = \<lparr>yielded = [found], consulted = take (Suc k) entry, thrown = None\<rparr>"
      unfolding run by simp
  next
    fix k err
    assume "k < length entry" "\<forall>j < k. v (entry ! j) = Inr None" "v (entry ! k) = Inl err"
    from yield_first_at [OF this(1,2)] this(3)
    show "run = \<lparr>yielded = [], consulted = take (Suc k) entry, thrown = Some err\<rparr>"
      unfolding run by simp
  qed
  ultimately show ?thesis using same by blast
qed

theorem matchAll_exact_output_witness:
  "lastCompilationID compiled = compilationID compiled \<and>
   matchedOutputPathname (options (plain_normalizer ''/posts/1'' output_about)) = Some ''/about'' \<and>
   ''/about'' \<noteq> [] \<and>
   matchers_at (all (matchers compiled)) ''/about'' = [about_matcher] \<and>
   matchAll plain_normalizer has_bracket (DefaultRouteMatcher_match slug_match) ''/posts/1''
       output_about compiled =
     \<lparr>yielded = [], consulted = [about_matcher], thrown = None\<rparr> \<and>
   (\<exists>k. consulted (matchAll plain_normalizer has_bracket (DefaultRouteMatcher_match slug_match)
            ''/posts/1'' output_about compiled) =
        take k (matchers_at (all (matchers compiled)) ''/about'')) \<and>
   matchAll plain_normalizer has_bracket (DefaultRouteMatcher_match slug_match) ''/posts/1''
       output_about (compiled\<lparr>matchers := (matchers compiled)\<lparr>static := [], dynamic := []\<rparr>\<rparr>) =
     matchAll plain_normalizer has_bracket (DefaultRouteMatcher_match slug_match) ''/posts/1''
       output_about compiled \<and>
   yielded (matchAll plain_normalizer has_bracket (DefaultRouteMatcher_match slug_match)
       ''/posts/1'' no_options compiled) =
     [\<lparr>match_definition = \<lparr>definition_pathname = ''/posts/[slug]''\<rparr>,
       match_params = [(''slug'', [''1''])]\<rparr>] \<and>
   lastCompilationID compiled_variants = compilationID compiled_variants \<and>
   matchedOutputPathname (options (plain_normalizer ''/about'' output_about_de)) = Some ''/about'' \<and>
   matchedOutputPathname (options (plain_normalizer ''/about'' output_about)) = Some ''/about'' \<and>
   matchers_at (all (matchers compiled_variants)) ''/about'' =
     [about_locale_matcher, about_matcher] \<and>
   validate (DefaultRouteMatcher_match slug_match) about_locale_matcher
       (plain_normalizer ''/about'' output_about_de) = Inr None \<and>
   matchAll plain_normalizer has_bracket (DefaultRouteMatcher_match slug_match) ''/about''
       output_about_de compiled_variants =
     \<lparr>yielded = [\<lparr>match_definition = \<lparr>definition_pathname = ''/about''\<rparr>, match_params = []\<rparr>],
      consulted = [about_locale_matcher, about_matcher], thrown = None\<rparr> \<and>
   matchAll plain_normalizer has_bracket (DefaultRouteMatcher_match slug_match) ''/about''
       output_about compiled_variants =
     \<lparr>yielded = [], consulted = [about_locale_matcher],
      thrown = Some (Error ''Invariant: expected locale matcher to have locale information for matching'')\<rparr>"
proof -
  have a: "lastCompilationID compiled = compilationID compiled" by code_simp
  have b: "matchedOutputPathname (options (plain_normalizer ''/posts/1'' output_about)) =
      Some ''/about''"
    by code_simp
  have c: "''/about'' \<noteq> []" by simp
  have d: "matchers_at (all (matchers compiled)) ''/about'' = [about_matcher]" by code_simp
  have e: "matchAll plain_normalizer has_bracket (DefaultRouteMatcher_match slug_match)
       ''/posts/1'' output_about compiled =
     \<lparr>yielded = [], consulted = [about_matcher], thrown = None\<rparr>"
    by code_simp
  have f: "yielded (matchAll plain_normalizer has_bracket (DefaultRouteMatcher_match slug_match)
       ''/posts/1'' no_options compiled) =
     [\<lparr>match_definition = \<lparr>definition_pathname = ''/posts/[slug]''\<rparr>,
       match_params = [(''slug'', [''1''])]\<rparr>]"
    by code_simp
  from matchAll_exact_output
         [where s = compiled and normalizer = plain_normalizer and pathname' = "''/posts/1''"
            and options' = output_about and out = "''/about''"
            and isDynamicRoute = has_bracket
            and match_of = "DefaultRouteMatcher_match slug_match"
            and others = "[]" and others' = "[]",
          OF a b c refl refl refl]
  have g: "(\<exists>k. consulted (matchAll plain_normalizer has_bracket (DefaultRouteMatcher_match slug_match)
            ''/posts/1'' output_about compiled) =
        take k (matchers_at (all (matchers compiled)) ''/about'')) \<and>
    matchAll plain_normalizer has_bracket (DefaultRouteMatcher_match slug_match) ''/posts/1''
       output_about (compiled\<lparr>matchers := (matchers compiled)\<lparr>static := [], dynamic := []\<rparr>\<rparr>) =
     matchAll plain_normalizer has_bracket (DefaultRouteMatcher_match slug_match) ''/posts/1''
       output_about compiled"
    by blast
  have a': "lastCompilationID compiled_variants = compilationID compiled_variants" by code_simp
  have b1: "matchedOutputPathname (options (plain_normalizer ''/about'' output_about_de)) =
      Some ''/about''"
    by code_simp
  have b2: "matchedOutputPathname (options (plain_normalizer ''/about'' output_about)) =
      Some ''/about''"
    by code_simp
  have en: "matchers_at (all (matchers compiled_variants)) ''/about'' =
      [about_locale_matcher, about_matcher]"
    by code_simp
  have v0: "validate (DefaultRouteMatcher_match slug_match) about_locale_matcher
       (plain_normalizer ''/about'' output_about_de) = Inr None"
    by code_simp
  have v1: "validate (DefaultRouteMatcher_match slug_match) about_matcher
       (plain_normalizer ''/about'' output_about_de) =
     Inr (Some \<lparr>match_definition = \<lparr>definition_pathname = ''/about''\<rparr>, match_params = []\<rparr>)"
    by code_simp
  have w0: "validate (DefaultRouteMatcher_match slug_match) about_locale_matcher
       (plain_normalizer ''/about'' output_about) =
     Inl (Error ''Invariant: expected locale matcher to have locale information for matching'')"
    by code_simp
  note first = matchAll_exact_output
         [where s = compiled_variants and normalizer = plain_normalizer
            and pathname' = "''/about''" and options' = output_about_de and out = "''/about''"
            and isDynamicRoute = has_bracket
            and match_of = "DefaultRouteMatcher_match slug_match"
            and others = "[]" and others' = "[]",
          OF a' b1 c refl refl refl,
          THEN conjunct2, THEN conjunct2, THEN conjunct2, THEN conjunct2, THEN conjunct2,
          THEN conjunct2, unfolded en]
  have "(1::nat) < length [about_locale_matcher, about_matcher]" by simp
  moreover have "\<forall>j < (1::nat). validate (DefaultRouteMatcher_match slug_match)
       ([about_locale_matcher, about_matcher] ! j) (plain_normalizer ''/about'' output_about_de) =
      Inr None"
    by (simp add: v0)
  moreover have "validate (DefaultRouteMatcher_match slug_match)
       ([about_locale_matcher, about_matcher] ! 1) (plain_normalizer ''/about'' output_about_de) =
     Inr (Some \<lparr>match_definition = \<lparr>definition_pathname = ''/about''\<rparr>, match_params = []\<rparr>)"
    by (simp add: v1)
  ultimately have h: "matchAll plain_normalizer has_bracket (DefaultRouteMatcher_match slug_match)
       ''/about'' output_about_de compiled_variants =
     \<lparr>yielded = [\<lparr>match_definition = \<lparr>definition_pathname = ''/about''\<rparr>, match_params = []\<rparr>],
      consulted = take (Suc 1) [about_locale_matcher, about_matcher], thrown = None\<rparr>"
    using first by blast
  note second = matchAll_exact_output
         [where s = compiled_variants and normalizer = plain_normalizer
            and pathname' = "''/about''" and options' = output_about and out = "''/about''"
            and isDynamicRoute = has_bracket
            and match_of = "DefaultRouteMatcher_match slug_match"
            and others = "[]" and others' = "[]",
          OF a' b2 c refl refl refl,
          THEN conjunct2, THEN conjunct2, THEN conjunct2, THEN conjunct2, THEN conjunct2,
          THEN conjunct2, unfolded en]
  have "(0::nat) < length [about_locale_matcher, about_matcher]" by simp
  moreover have "\<forall>j < (0::nat). validate (DefaultRouteMatcher_match slug_match)
       ([about_locale_matcher, about_matcher] ! j) (plain_normalizer ''/about'' output_about) =
      Inr None"
    by simp
  moreover have "validate (DefaultRouteMatcher_match slug_match)
       ([about_locale_matcher, about_matcher] ! 0) (plain_normalizer ''/about'' output_about) =
     Inl (Error ''Invariant: expected locale matcher to have locale information for matching'')"
    by (simp add: w0)
  ultimately have i: "matchAll plain_normalizer has_bracket (DefaultRouteMatcher_match slug_match)
       ''/about'' output_about compiled_variants =
     \<lparr>yielded = [], consulted = take (Suc 0) [about_locale_matcher, about_matcher],
      thrown = Some (Error ''Invariant: expected locale matcher to have locale information for matching'')\<rparr>"
    using second by blast
  from h have h': "matchAll plain_normalizer has_bracket (DefaultRouteMatcher_match slug_match)
       ''/about'' output_about_de compiled_variants =
     \<lparr>yielded = [\<lparr>match_definition = \<lparr>definition_pathname = ''/about''\<rparr>, match_params = []\<rparr>],
      consulted = [about_locale_matcher, about_matcher], thrown = None\<rparr>"
    by simp
  from i have i': "matchAll plain_normalizer has_bracket (DefaultRouteMatcher_match slug_match)
       ''/about'' output_about compiled_variants =
     \<lparr>yielded = [], consulted = [about_locale_matcher],
      thrown = Some (Error ''Invariant: expected locale matcher to have locale information for matching'')\<rparr>"
    by simp
  from a b c d e f g a' b1 b2 en v0 h' i' show ?thesis by blast
qed

text \<open>
  C9. When the manager is compiled and the normalized options name no output pathname (none,
  or the empty string), a \<^verbatim>\<open>matchAll\<close> run for a pathname that is not a dynamic route
  pattern consults a prefix of the static matchers followed by the dynamic matchers, each list
  in stored order, and yields the successes of the consulted matchers in that order: every
  static success comes before every dynamic one, and a run that ends without an error has
  yielded every success of both lists. For a pathname that is a dynamic route pattern the
  same holds with the dynamic matchers alone: no static matcher is consulted.
  The run is determined by the lists: when no validation throws, every matcher of the lists
  is consulted, every success is yielded and the run ends normally; otherwise the run
  stops at the first matcher whose validation throws, having yielded the successes of the
  matchers before it, and ends with that error.
\<close>

theorem matchAll_static_before_dynamic:
  assumes "lastCompilationID s = compilationID s"
    and "matchedOutputPathname (options (normalizer pathname' options')) = None \<or>
         matchedOutputPathname (options (normalizer pathname' options')) = Some []"
    and "run = matchAll normalizer isDynamicRoute match_of pathname' options' s"
    and "v = (\<lambda>m. validate match_of m (normalizer pathname' options'))"
  shows "(\<not> isDynamicRoute pathname' \<longrightarrow>
            (\<exists>k. consulted run = take k (static (matchers s) @ dynamic (matchers s))) \<and>
            yielded run = successes v (consulted run) \<and>
            (thrown run = None \<longrightarrow>
               consulted run = static (matchers s) @ dynamic (matchers s) \<and>
               yielded run = successes v (static (matchers s)) @ successes v (dynamic (matchers s))) \<and>
            ((\<forall>m \<in> set (static (matchers s) @ dynamic (matchers s)). \<forall>err. v m \<noteq> Inl err) \<longrightarrow>
               run = \<lparr>yielded = successes v (static (matchers s)) @ successes v (dynamic (matchers s)),
                      consulted = static (matchers s) @ dynamic (matchers s), thrown = None\<rparr>) \<and>
            (\<forall>k < length (static (matchers s) @ dynamic (matchers s)). \<forall>err.
               (\<forall>j < k. \<forall>err'. v ((static (matchers s) @ dynamic (matchers s)) ! j) \<noteq> Inl err') \<and>
               v ((static (matchers s) @ dynamic (matchers s)) ! k) = Inl err \<longrightarrow>
               run = \<lparr>yielded = successes v (take k (static (matchers s) @ dynamic (matchers s))),
                      consulted = take (Suc k) (static (matchers s) @ dynamic (matchers s)),
                      thrown = Some err\<rparr>)) \<and>
         (isDynamicRoute pathname' \<longrightarrow>
            (\<exists>k. consulted run = take k (dynamic (matchers s))) \<and>
            yielded run = successes v (consulted run) \<and>
            (thrown run = None \<longrightarrow>
               consulted run = dynamic (matchers s) \<and>
               yielded run = successes v (dynamic (matchers s))) \<and>
            ((\<forall>m \<in> set (dynamic (matchers s)). \<forall>err. v m \<noteq> Inl err) \<longrightarrow>
               run = \<lparr>yielded = successes v (dynamic (matchers s)),
                      consulted = dynamic (matchers s), thrown = None\<rparr>) \<and>
            (\<forall>k < length (dynamic (matchers s)). \<forall>err.
               (\<forall>j < k. \<forall>err'. v (dynamic (matchers s) ! j) \<noteq> Inl err') \<and>
               v (dynamic (matchers s) ! k) = Inl err \<longrightarrow>
               run = \<lparr>yielded = successes v (take k (dynamic (matchers s))),
                      consulted = take (Suc k) (dynamic (matchers s)),
                      thrown = Some err\<rparr>))"
proof (intro conjI impI)
  assume d: "\<not> isDynamicRoute pathname'"
  have run: "run = and_then (yield_every v (static (matchers s))) (yield_every v (dynamic (matchers s)))"
    unfolding assms(3,4) using d
    by (simp add: matchAll_scan [where normalizer = normalizer and pathname' = pathname'
          and options' = options', OF assms(1,2)])
  note scan = and_then_scan [of v "static (matchers s)" "dynamic (matchers s)", folded run]
  have whole: "run = yield_every v (static (matchers s) @ dynamic (matchers s))"
    unfolding run by (rule and_then_yield_every)
  from scan show "\<exists>k. consulted run = take k (static (matchers s) @ dynamic (matchers s))"
    by blast
  from scan show y: "yielded run = successes v (consulted run)" by blast
  {
    assume "thrown run = None"
    with scan show c: "consulted run = static (matchers s) @ dynamic (matchers s)" by blast
    show "yielded run = successes v (static (matchers s)) @ successes v (dynamic (matchers s))"
      unfolding y c by (rule successes_append)
  }
  {
    assume "\<forall>m \<in> set (static (matchers s) @ dynamic (matchers s)). \<forall>err. v m \<noteq> Inl err"
    from yield_every_no_throw [OF this]
    show "run = \<lparr>yielded = successes v (static (matchers s)) @ successes v (dynamic (matchers s)),
                      consulted = static (matchers s) @ dynamic (matchers s), thrown = None\<rparr>"
      unfolding whole by (simp add: successes_append)
  }
  show "\<forall>k < length (static (matchers s) @ dynamic (matchers s)). \<forall>err.
               (\<forall>j < k. \<forall>err'. v ((static (matchers s) @ dynamic (matchers s)) ! j) \<noteq> Inl err') \<and>
               v ((static (matchers s) @ dynamic (matchers s)) ! k) = Inl err \<longrightarrow>
               run = \<lparr>yielded = successes v (take k (static (matchers s) @ dynamic (matchers s))),
                      consulted = take (Suc k) (static (matchers s) @ dynamic (matchers s)),
                      thrown = Some err\<rparr>"
    unfolding whole using yield_every_throw_at [of _ "static (matchers s) @ dynamic (matchers s)" v]
    by blast
next
  assume d: "isDynamicRoute pathname'"
  have run: "run = and_then (yield_every v []) (yield_every v (dynamic (matchers s)))"
    unfolding assms(3,4) using d
    by (simp add: matchAll_scan [where normalizer = normalizer and pathname' = pathname'
          and options' = options', OF assms(1,2)])
  note scan = and_then_scan [of v "[]" "dynamic (matchers s)", folded run]
  have whole: "run = yield_every v (dynamic (matchers s))"
    unfolding run by (simp add: and_then_finished)
  from scan show "\<exists>k. consulted run = take k (dynamic (matchers s))"
    by simp
  from scan show y: "yielded run = successes v (consulted run)" by blast
  {
    assume "thrown run = None"
    with scan show c: "consulted run = dynamic (matchers s)" by simp
    show "yielded run = successes v (dynamic (matchers s))"
      unfolding y c ..
  }
  {
    assume "\<forall>m \<in> set (dynamic (matchers s)). \<forall>err. v m \<noteq> Inl err"
    from yield_every_no_throw [OF this]
    show "run = \<lparr>yielded = successes v (dynamic (matchers s)),
                      consulted = dynamic (matchers s), thrown = None\<rparr>"
      unfolding whole .
  }
  show "\<forall>k < length (dynamic (matchers s)). \<forall>err.
               (\<forall>j < k. \<forall>err'. v (dynamic (matchers s) ! j) \<noteq> Inl err') \<and>
               v (dynamic (matchers s) ! k) = Inl err \<longrightarrow>
               run = \<lparr>yielded = successes v (take k (dynamic (matchers s))),
                      consulted = take (Suc k) (dynamic (matchers s)),
                      thrown = Some err\<rparr>"
    unfolding whole using yield_every_throw_at [of _ "dynamic (matchers s)" v]
    by blast
qed

theorem matchAll_static_before_dynamic_witness:
  "lastCompilationID compiled = compilationID compiled \<and>
   (matchedOutputPathname (options (plain_normalizer ''/about'' no_options)) = None \<or>
    matchedOutputPathname (options (plain_normalizer ''/about'' no_options)) = Some []) \<and>
   (matchedOutputPathname (options (plain_normalizer ''/posts/[slug]'' no_options)) = None \<or>
    matchedOutputPathname (options (plain_normalizer ''/posts/[slug]'' no_options)) = Some []) \<and>
   \<not> has_bracket ''/about'' \<and> has_bracket ''/posts/[slug]'' \<and>
   (\<exists>k. consulted (matchAll plain_normalizer has_bracket (DefaultRouteMatcher_match slug_match)
            ''/about'' no_options compiled) =
        take k (static (matchers compiled) @ dynamic (matchers compiled))) \<and>
   (\<exists>k. consulted (matchAll plain_normalizer has_bracket (DefaultRouteMatcher_match slug_match)
            ''/posts/[slug]'' no_options compiled) =
        take k (dynamic (matchers compiled))) \<and>
   matchAll plain_normalizer has_bracket (DefaultRouteMatcher_match slug_match) ''/about''
       no_options compiled =
     \<lparr>yielded = [\<lparr>match_definition = \<lparr>definition_pathname = ''/about''\<rparr>, match_params = []\<rparr>],
      consulted = [about_matcher, post_matcher], thrown = None\<rparr> \<and>
   matchAll plain_normalizer has_bracket (DefaultRouteMatcher_match slug_match) ''/posts/[slug]''
       no_options compiled =
     \<lparr>yielded = [\<lparr>match_definition = \<lparr>definition_pathname = ''/posts/[slug]''\<rparr>,
                   match_params = [(''slug'', [''[slug]''])]\<rparr>],
      consulted = [post_matcher], thrown = None\<rparr> \<and>
   lastCompilationID compiled_posts = compilationID compiled_posts \<and>
   (matchedOutputPathname (options (plain_normalizer ''/posts/featured'' no_options)) = None \<or>
    matchedOutputPathname (options (plain_normalizer ''/posts/featured'' no_options)) = Some []) \<and>
   \<not> has_bracket ''/posts/featured'' \<and>
   static (matchers compiled_posts) = [featured_matcher] \<and>
   dynamic (matchers compiled_posts) = [post_matcher] \<and>
   matchAll plain_normalizer has_bracket (DefaultRouteMatcher_match slug_match) ''/posts/featured''
       no_options compiled_posts =
     \<lparr>yielded =
        [\<lparr>match_definition = \<lparr>definition_pathname = ''/posts/featured''\<rparr>, match_params = []\<rparr>,
         \<lparr>match_definition = \<lparr>definition_pathname = ''/posts/[slug]''\<rparr>,
           match_params = [(''slug'', [''featured''])]\<rparr>],
      consulted = [featured_matcher, post_matcher], thrown = None\<rparr> \<and>
   lastCompilationID compiled_localized = compilationID compiled_localized \<and>
   static (matchers compiled_localized) = [contact_matcher, featured_matcher] \<and>
   dynamic (matchers compiled_localized) = [post_matcher] \<and>
   matchAll plain_normalizer has_bracket (DefaultRouteMatcher_match slug_match) ''/posts/featured''
       no_options compiled_localized =
     \<lparr>yielded = [], consulted = [contact_matcher],
      thrown = Some (Error ''Invariant: expected locale matcher to have locale information for matching'')\<rparr>"
proof -
  have a: "lastCompilationID compiled = compilationID compiled" by code_simp
  have b: "matchedOutputPathname (options (plain_normalizer ''/about'' no_options)) = None \<or>
    matchedOutputPathname (options (plain_normalizer ''/about'' no_options)) = Some []"
    by code_simp
  have b': "matchedOutputPathname (options (plain_normalizer ''/posts/[slug]'' no_options)) = None \<or>
    matchedOutputPathname (options (plain_normalizer ''/posts/[slug]'' no_options)) = Some []"
    by code_simp
  have c: "\<not> has_bracket ''/about''" by code_simp
  have d: "has_bracket ''/posts/[slug]''" by code_simp
  have e: "matchAll plain_normalizer has_bracket (DefaultRouteMatcher_match slug_match) ''/about''
       no_options compiled =
     \<lparr>yielded = [\<lparr>match_definition = \<lparr>definition_pathname = ''/about''\<rparr>, match_params = []\<rparr>],
      consulted = [about_matcher, post_matcher], thrown = None\<rparr>"
    by code_simp
  have f: "matchAll plain_normalizer has_bracket (DefaultRouteMatcher_match slug_match)
       ''/posts/[slug]'' no_options compiled =
     \<lparr>yielded = [\<lparr>match_definition = \<lparr>definition_pathname = ''/posts/[slug]''\<rparr>,
                   match_params = [(''slug'', [''[slug]''])]\<rparr>],
      consulted = [post_matcher], thrown = None\<rparr>"
    by code_simp
  from matchAll_static_before_dynamic
         [where s = compiled and normalizer = plain_normalizer and pathname' = "''/about''"
            and options' = no_options and isDynamicRoute = has_bracket
            and match_of = "DefaultRouteMatcher_match slug_match",
          OF a b refl refl] c
  have g: "\<exists>k. consulted (matchAll plain_normalizer has_bracket (DefaultRouteMatcher_match slug_match)
            ''/about'' no_options compiled) =
        take k (static (matchers compiled) @ dynamic (matchers compiled))"
    by blast
  from matchAll_static_before_dynamic
         [where s = compiled and normalizer = plain_normalizer
            and pathname' = "''/posts/[slug]''"
            and options' = no_options and isDynamicRoute = has_bracket
            and match_of = "DefaultRouteMatcher_match slug_match",
          OF a b' refl refl] d
  have h: "\<exists>k. consulted (matchAll plain_normalizer has_bracket (DefaultRouteMatcher_match slug_match)
            ''/posts/[slug]'' no_options compiled) =
        take k (dynamic (matchers compiled))"
    by blast
  have a1: "lastCompilationID compiled_posts = compilationID compiled_posts" by code_simp
  have a2: "lastCompilationID compiled_localized = compilationID compiled_localized" by code_simp
  have b1: "matchedOutputPathname (options (plain_normalizer ''/posts/featured'' no_options)) = None \<or>
    matchedOutputPathname (options (plain_normalizer ''/posts/featured'' no_options)) = Some []"
    by code_simp
  have c1: "\<not> has_bracket ''/posts/featured''" by code_simp
  have st1: "static (matchers compiled_posts) = [featured_matcher]" by code_simp
  have dy1: "dynamic (matchers compiled_posts) = [post_matcher]" by code_simp
  have st2: "static (matchers compiled_localized) = [contact_matcher, featured_matcher]"
    by code_simp
  have dy2: "dynamic (matchers compiled_localized) = [post_matcher]" by code_simp
  have vf: "validate (DefaultRouteMatcher_match slug_match) featured_matcher
       (plain_normalizer ''/posts/featured'' no_options) =
     Inr (Some \<lparr>match_definition = \<lparr>definition_pathname = ''/posts/featured''\<rparr>,
                 match_params = []\<rparr>)"
    by code_simp
  have vp: "validate (DefaultRouteMatcher_match slug_match) post_matcher
       (plain_normalizer ''/posts/featured'' no_options) =
     Inr (Some \<lparr>match_definition = \<lparr>definition_pathname = ''/posts/[slug]''\<rparr>,
                 match_params = [(''slug'', [''featured''])]\<rparr>)"
    by code_simp
  have vc: "validate (DefaultRouteMatcher_match slug_match) contact_matcher
       (plain_normalizer ''/posts/featured'' no_options) =
     Inl (Error ''Invariant: expected locale matcher to have locale information for matching'')"
    by code_simp
  note both = matchAll_static_before_dynamic
         [where s = compiled_posts and normalizer = plain_normalizer
            and pathname' = "''/posts/featured''"
            and options' = no_options and isDynamicRoute = has_bracket
            and match_of = "DefaultRouteMatcher_match slug_match",
          OF a1 b1 refl refl, THEN conjunct1, THEN mp, OF c1,
          THEN conjunct2, THEN conjunct2, THEN conjunct2, THEN conjunct1, unfolded st1 dy1]
  have "\<forall>m \<in> set ([featured_matcher] @ [post_matcher]). \<forall>err.
      validate (DefaultRouteMatcher_match slug_match) m
        (plain_normalizer ''/posts/featured'' no_options) \<noteq> Inl err"
    by (simp add: vf vp)
  with both have i: "matchAll plain_normalizer has_bracket (DefaultRouteMatcher_match slug_match)
       ''/posts/featured'' no_options compiled_posts =
     \<lparr>yielded =
        successes (\<lambda>m. validate (DefaultRouteMatcher_match slug_match) m
                     (plain_normalizer ''/posts/featured'' no_options)) [featured_matcher] @
        successes (\<lambda>m. validate (DefaultRouteMatcher_match slug_match) m
                     (plain_normalizer ''/posts/featured'' no_options)) [post_matcher],
      consulted = [featured_matcher] @ [post_matcher], thrown = None\<rparr>"
    by blast
  have i': "matchAll plain_normalizer has_bracket (DefaultRouteMatcher_match slug_match)
       ''/posts/featured'' no_options compiled_posts =
     \<lparr>yielded =
        [\<lparr>match_definition = \<lparr>definition_pathname = ''/posts/featured''\<rparr>, match_params = []\<rparr>,
         \<lparr>match_definition = \<lparr>definition_pathname = ''/posts/[slug]''\<rparr>,
           match_params = [(''slug'', [''featured''])]\<rparr>],
      consulted = [featured_matcher, post_matcher], thrown = None\<rparr>"
    unfolding i by (simp add: successes_def vf vp)
  note throws = matchAll_static_before_dynamic
         [where s = compiled_localized and normalizer = plain_normalizer
            and pathname' = "''/posts/featured''"
            and options' = no_options and isDynamicRoute = has_bracket
            and match_of = "DefaultRouteMatcher_match slug_match",
          OF a2 b1 refl refl, THEN conjunct1, THEN mp, OF c1,
          THEN conjunct2, THEN conjunct2, THEN conjunct2, THEN conjunct2, unfolded st2 dy2]
  have "(0::nat) < length ([contact_matcher, featured_matcher] @ [post_matcher])" by simp
  moreover have "(\<forall>j < (0::nat). \<forall>err'.
        validate (DefaultRouteMatcher_match slug_match)
          (([contact_matcher, featured_matcher] @ [post_matcher]) ! j)
          (plain_normalizer ''/posts/featured'' no_options) \<noteq> Inl err') \<and>
      validate (DefaultRouteMatcher_match slug_match)
        (([contact_matcher, featured_matcher] @ [post_matcher]) ! 0)
        (plain_normalizer ''/posts/featured'' no_options) =
      Inl (Error ''Invariant: expected locale matcher to have locale information for matching'')"
    by (simp add: vc)
  ultimately have j: "matchAll plain_normalizer has_bracket (DefaultRouteMatcher_match slug_match)
       ''/posts/featured'' no_options compiled_localized =
     \<lparr>yielded = successes (\<lambda>m. validate (DefaultRouteMatcher_match slug_match) m
                     (plain_normalizer ''/posts/featured'' no_options))
                  (take 0 ([contact_matcher, featured_matcher] @ [post_matcher])),
      consulted = take (Suc 0) ([contact_matcher, featured_matcher] @ [post_matcher]),
      thrown = Some (Error ''Invariant: expected locale matcher to have locale information for matching'')\<rparr>"
    using throws by blast
  have j': "matchAll plain_normalizer has_bracket (DefaultRouteMatcher_match slug_match)
       ''/posts/featured'' no_options compiled_localized =
     \<lparr>yielded = [], consulted = [contact_matcher],
      thrown = Some (Error ''Invariant: expected locale matcher to have locale information for matching'')\<rparr>"
    unfolding j by (simp add: successes_def)
  from a b b' c d e f g h a1 b1 c1 st1 dy1 i' a2 st2 dy2 j' show ?thesis by blast
qed

end
